theory Spec2Isabelle
  imports Complex_Main "HOL-Library.Word" "HOL-Library.Signed_Division"
begin

section \<open>Data model of perftest.go\<close>

text \<open>
  The program probes URLs in one goroutine per target (\<^verbatim>\<open>testHttp\<close>), accumulates a
  summary, and raises debounced alerts (\<^verbatim>\<open>sendAlert\<close>, \<^verbatim>\<open>sendTwilio\<close>).  Network
  operations, the clock and the channel operations are inputs of the model; everything
  the program prints, logs or sends is an output event.

  \<^verbatim>\<open>time.Duration\<close> and the payload size are \<^verbatim>\<open>int64\<close>: 64-bit words, whose
  addition wraps as Go's does.  Unix timestamps (\<^verbatim>\<open>int64\<close> seconds) are \<open>int\<close>: they are
  readings of the wall clock, whose differences are far from the range of \<^verbatim>\<open>int64\<close>.
  The counters \<^verbatim>\<open>count\<close> (\<^verbatim>\<open>int64\<close>) and \<^verbatim>\<open>failcount\<close> (\<^verbatim>\<open>int\<close>) and the
  two flags they are compared with are \<open>int\<close> as well: each counter goes up from zero by
  one and the loop leaves when it reaches its limit, so it never passes the larger of 1 and
  that limit (\<open>counters_in_range\<close> below) and cannot wrap.
\<close>

type_synonym int64 = "64 word"
type_synonym duration = "64 word"

text \<open>
  \<^verbatim>\<open>util.PingTimes\<close>, with the fields perftest.go reads and writes.  \<open>Start\<close> holds
  \<^verbatim>\<open>pt.Start.Unix()\<close>, the only use the program makes of the start time.
\<close>

record PingTimes =
  Start :: int
  DnsLk :: duration
  TcpHs :: duration
  TlsHs :: duration
  Reply :: duration
  Close :: duration
  Total :: duration
  DestUrl :: string
  Remote :: string
  RespCode :: int
  Size :: int64

text \<open>The package-level variables that \<^verbatim>\<open>main\<close> sets from flags and environment.\<close>

record config =
  delayFlag :: int
  maxFails :: int
  jsonFlag :: bool
  cwFlag :: bool
  whClient :: bool
  verbose :: int
  alertThresh :: duration
  alertInterval :: int
  twilioKey :: string
  twilioSms :: "string list"

text \<open>
  The message of \<^verbatim>\<open>sendAlert\<close>,
  \<^verbatim>\<open>fmt.Sprintf("RespTime %s on %s exceeds %s", pt.RespTime(), url, alertThresh)\<close>,
  kept as its three arguments.
\<close>

datatype alert_msg = AlertMsg duration string duration

text \<open>
  What the \<^verbatim>\<open>net/http\<close> package does with one request of \<^verbatim>\<open>sendTwilio\<close>.
  \<open>RequestError\<close>: \<^verbatim>\<open>http.NewRequest\<close> returns \<^verbatim>\<open>(nil, err)\<close>, as it does when the URL
  built from the account SID does not parse (an SID such as \<^verbatim>\<open>%zz\<close>).
  \<open>TransportError\<close>: the request is built and \<^verbatim>\<open>client.Do(req)\<close> returns
  \<^verbatim>\<open>(nil, err)\<close>, the request not reaching the server.  Otherwise there is a response,
  with its status code and the \<^verbatim>\<open>"sid"\<close> of the decoded body (\<open>None\<close> when the body does
  not decode).
\<close>

datatype http_reply = RequestError | TransportError | Response int "string option"

fun answered :: "http_reply \<Rightarrow> bool" where
  "answered (Response code sid) = True"
| "answered r = False"

text \<open>What \<^verbatim>\<open>publishJSON\<close> meets: a marshalling error, a failed POST, or success.\<close>

datatype wh_reply = MarshalError | PostError | PostOk

datatype flow = Normal | Panicked

text \<open>
  A \<^verbatim>\<open>float64\<close> of the summary is a real number that depends on two things the source
  does not hold: \<^verbatim>\<open>util.Msec\<close>, which turns a duration into milliseconds, and the
  rounding of \<^verbatim>\<open>float64\<close> arithmetic, which maps the exact result of an operation to the
  value that is stored.  Nothing is assumed of either.  \<^verbatim>\<open>float64(count)\<close> rounds the
  integer, and \<^verbatim>\<open>x / y\<close> rounds the exact quotient.
\<close>

type_synonym float64 = "(duration \<Rightarrow> real) \<Rightarrow> (real \<Rightarrow> real) \<Rightarrow> real"

definition Msec :: "duration \<Rightarrow> float64" where
  "Msec d = (\<lambda>ms rnd. ms d)"

definition float64_of_int :: "int \<Rightarrow> float64" where
  "float64_of_int c = (\<lambda>ms rnd. rnd (of_int c))"

definition fdiv :: "float64 \<Rightarrow> float64 \<Rightarrow> float64" where
  "fdiv x y = (\<lambda>ms rnd. rnd (x ms rnd / y ms rnd))"

record summary =
  samples :: int
  elapsed :: int
  avgDnsLk :: float64
  avgTcpHs :: float64
  avgTlsHs :: float64
  avgReply :: float64
  avgClose :: float64
  avgRespTime :: float64
  avgSize :: int64
  dest :: string

datatype event =
    TestLog string
  | FetchFailureLog int int string
  | NoValidSamples
  | SampleJson PingTimes
  | SampleLine int PingTimes
  | CloudWatchLog duration
  | CloudWatch string "int option" duration
  | WebhookLog string
  | WebhookPost PingTimes
  | WebhookMarshalLog
  | WebhookErrorLog
  | AlertLog alert_msg
  | TooSoonLog
  | NowhereLog string
  | BadKeyLog
  | TwilioLog string
  | TwilioPost string string string alert_msg
  | TwilioSid string
  | TwilioErrorLog int
  | SummaryReport summary

section \<open>Alert management\<close>

text \<open>
  \<^verbatim>\<open>sendTwilio(msg, key, sms)\<close>.  The key is split at its first colon.  The error of
  \<^verbatim>\<open>client.Do\<close> is discarded and \<^verbatim>\<open>resp.StatusCode\<close> is read at once, so a
  \<^verbatim>\<open>nil\<close> response is a nil-pointer panic.  The error of \<^verbatim>\<open>http.NewRequest\<close> is
  discarded as well and \<^verbatim>\<open>req.SetBasicAuth\<close> is called at once, so a \<^verbatim>\<open>nil\<close> request
  is a nil-pointer panic before anything is sent.  \<open>TwilioPost\<close> is the request handed
  to \<^verbatim>\<open>client.Do\<close>: account, token, recipient and body.
\<close>

definition sendTwilio ::
  "config \<Rightarrow> http_reply \<Rightarrow> alert_msg \<Rightarrow> string \<Rightarrow> string \<Rightarrow> event list \<times> flow" where
  "sendTwilio cfg reply msg key sms =
     (if CHR '':'' \<notin> set key then ([BadKeyLog], Normal)
      else
        let accountSid = takeWhile (\<lambda>c. c \<noteq> CHR '':'') key;
            authToken = tl (dropWhile (\<lambda>c. c \<noteq> CHR '':'') key);
            logged = (if 1 < verbose cfg then [TwilioLog sms] else []);
            req = logged @ [TwilioPost accountSid authToken sms msg]
        in case reply of
             RequestError \<Rightarrow> (logged, Panicked)
           | TransportError \<Rightarrow> (req, Panicked)
           | Response code sid \<Rightarrow>
               if 200 \<le> code \<and> code < 300
               then (req @ (case sid of Some d \<Rightarrow> [TwilioSid d] | None \<Rightarrow> []), Normal)
               else (req @ [TwilioErrorLog code], Normal))"

text \<open>
  \<^verbatim>\<open>for _, sms := range twilioSms { sendTwilio(msg, twilioKey, sms) }\<close>; the reply to the
  i-th request is \<open>net i\<close>.  A panic ends the loop.
\<close>

fun sendTwilio_range ::
  "config \<Rightarrow> (nat \<Rightarrow> http_reply) \<Rightarrow> alert_msg \<Rightarrow> string \<Rightarrow> nat \<Rightarrow> string list \<Rightarrow> event list \<times> flow" where
  "sendTwilio_range cfg net msg key i [] = ([], Normal)"
| "sendTwilio_range cfg net msg key i (sms # rest) =
     (case sendTwilio cfg (net i) msg key sms of
        (evs, Panicked) \<Rightarrow> (evs, Panicked)
      | (evs, Normal) \<Rightarrow>
          (case sendTwilio_range cfg net msg key (Suc i) rest of
             (evs', fl) \<Rightarrow> (evs @ evs', fl)))"

text \<open>
  \<^verbatim>\<open>sendAlert(pt, url)\<close> on the global \<^verbatim>\<open>lastAlert\<close>, which is passed in and returned.
  \<open>rt\<close> is \<^verbatim>\<open>PingTimes.RespTime\<close>, a method of the \<^verbatim>\<open>util\<close> package.
\<close>

definition sendAlert ::
  "(PingTimes \<Rightarrow> duration) \<Rightarrow> config \<Rightarrow> (nat \<Rightarrow> http_reply) \<Rightarrow> int \<Rightarrow> PingTimes \<Rightarrow> string
     \<Rightarrow> int \<times> event list \<times> flow" where
  "sendAlert rt cfg net lastAlert pt url =
     (let timeSinceLast = Start pt - lastAlert;
          msg = AlertMsg (rt pt) url (alertThresh cfg);
          logged = (if 0 < verbose cfg then [AlertLog msg] else [])
      in if timeSinceLast < alertInterval cfg
         then (lastAlert, logged @ (if 1 < verbose cfg then [TooSoonLog] else []), Normal)
         else if twilioKey cfg = [] \<or> twilioSms cfg = []
         then (Start pt, logged @ [NowhereLog url], Normal)
         else (case sendTwilio_range cfg net msg (twilioKey cfg) 0 (twilioSms cfg) of
                 (evs, fl) \<Rightarrow> (Start pt, logged @ evs, fl)))"

text \<open>An alert is dispatched when a request to the notification service is issued.\<close>

fun is_post :: "event \<Rightarrow> bool" where
  "is_post (TwilioPost a t s m) = True"
| "is_post e = False"

definition dispatched :: "int \<times> event list \<times> flow \<Rightarrow> bool" where
  "dispatched r = (filter is_post (fst (snd r)) \<noteq> [])"

section \<open>The probe loop\<close>

text \<open>
  One pass of the \<^verbatim>\<open>for\<close> loop of \<^verbatim>\<open>testHttp\<close> meets: the result of
  \<^verbatim>\<open>util.FetchURL\<close> (\<^verbatim>\<open>nil\<close> on failure), the fate of the webhook POST, the replies
  of the notification service, and the case the \<^verbatim>\<open>select\<close> takes.
\<close>

datatype wait_result = DoneClosed | DelayElapsed

record attempt =
  fetch :: "PingTimes option"
  post :: wh_reply
  twilio :: "nat \<Rightarrow> http_reply"
  wait :: wait_result

datatype exit_reason = FailureCeiling | MaxAttempts | StopSignal

datatype status = Running | Returned exit_reason | Crashed

text \<open>
  The locals of \<^verbatim>\<open>testHttp\<close> (\<open>deferred\<close>: the summary printer has been deferred),
  the global \<^verbatim>\<open>lastAlert\<close>, the number of calls of \<^verbatim>\<open>FetchURL\<close> so far, and the
  output so far.
\<close>

record lstate =
  count :: int
  failcount :: int
  ptSummary :: PingTimes
  deferred :: bool
  lastAlert :: int
  probes :: nat
  out :: "event list"

text \<open>The zero value of \<^verbatim>\<open>var ptSummary util.PingTimes\<close>.\<close>

definition PingTimes_zero :: PingTimes where
  "PingTimes_zero =
     \<lparr>Start = - 62135596800, DnsLk = 0, TcpHs = 0, TlsHs = 0, Reply = 0, Close = 0, Total = 0,
      DestUrl = [], Remote = [], RespCode = 0, Size = 0\<rparr>"

text \<open>The seven \<^verbatim>\<open>+=\<close> of the \<^verbatim>\<open>else\<close> branch.\<close>

definition add_sample :: "PingTimes \<Rightarrow> PingTimes \<Rightarrow> PingTimes" where
  "add_sample s pt =
     s\<lparr>DnsLk := DnsLk s + DnsLk pt,
       TcpHs := TcpHs s + TcpHs pt,
       TlsHs := TlsHs s + TlsHs pt,
       Reply := Reply s + Reply pt,
       Close := Close s + Close pt,
       Total := Total s + Total pt,
       Size := Size s + Size pt\<rparr>"

definition record_sample :: "lstate \<Rightarrow> PingTimes \<Rightarrow> lstate" where
  "record_sample s pt =
     (if count s = 0 then s\<lparr>ptSummary := pt, deferred := True\<rparr>
      else s\<lparr>ptSummary := add_sample (ptSummary s) pt\<rparr>)"

text \<open>\<^verbatim>\<open>publishJSON(url, pt)\<close>: both errors are logged and the function returns.\<close>

definition publishJSON :: "wh_reply \<Rightarrow> PingTimes \<Rightarrow> event list" where
  "publishJSON r pt =
     (case r of
        MarshalError \<Rightarrow> [WebhookMarshalLog]
      | PostError \<Rightarrow> [WebhookPost pt, WebhookErrorLog]
      | PostOk \<Rightarrow> [WebhookPost pt])"

definition publish_cloudwatch :: "(PingTimes \<Rightarrow> duration) \<Rightarrow> config \<Rightarrow> string \<Rightarrow> PingTimes \<Rightarrow> event list" where
  "publish_cloudwatch rt cfg url pt =
     (if cwFlag cfg
      then (if 1 < verbose cfg then [CloudWatchLog (rt pt)] else [])
             @ [CloudWatch url (if 0 \<le> RespCode pt then Some (RespCode pt) else None) (rt pt)]
      else [])"

definition publish_webhook :: "config \<Rightarrow> attempt \<Rightarrow> PingTimes \<Rightarrow> event list" where
  "publish_webhook cfg a pt =
     (if whClient cfg
      then (if 1 < verbose cfg then [WebhookLog (Remote pt)] else []) @ publishJSON (post a) pt
      else [])"

text \<open>
  The end of a pass: \<^verbatim>\<open>if count >= int64(numTries) { return }\<close>, then the
  \<^verbatim>\<open>select\<close> on the done channel and the timer.
\<close>

definition after_attempt :: "int \<Rightarrow> lstate \<Rightarrow> attempt \<Rightarrow> status \<times> lstate" where
  "after_attempt n s a =
     (if n \<le> count s then (Returned MaxAttempts, s)
      else case wait a of
             DoneClosed \<Rightarrow> (Returned StopSignal, s)
           | DelayElapsed \<Rightarrow> (Running, s))"

text \<open>
  The case the \<^verbatim>\<open>select\<close> of lines 384 to 391 takes.  \<open>done_closed\<close>: the done channel is
  closed when the select is reached, or is closed during the wait before the timer of
  \<^verbatim>\<open>time.After\<close> fires.  With an open channel the timer case is taken.  With a closed
  channel and a delay above zero only the done case is ready.  With a delay of zero or
  less the timer is due at once, so both cases can be ready, and of two ready cases Go
  takes one by a pseudo-random choice: the case taken is the input \<open>choice\<close>.
\<close>

definition select_case :: "config \<Rightarrow> bool \<Rightarrow> wait_result \<Rightarrow> wait_result" where
  "select_case cfg done_closed choice =
     (if done_closed then (if delayFlag cfg \<le> 0 then choice else DoneClosed)
      else DelayElapsed)"

text \<open>
  The passes of a run in which the done channel is closed by the time of the wait of pass
  \<open>k\<close>, counted from zero, and stays closed, as a closed channel does: the select of pass
  \<open>i\<close> takes the case \<open>select_case\<close> gives, \<open>pick i\<close> being Go's choice there.
\<close>

fun closed_at :: "config \<Rightarrow> nat \<Rightarrow> (nat \<Rightarrow> wait_result) \<Rightarrow> nat \<Rightarrow> attempt list \<Rightarrow> attempt list" where
  "closed_at cfg k pick i [] = []"
| "closed_at cfg k pick i (a # as) =
     a\<lparr>wait := select_case cfg (k \<le> i) (pick i)\<rparr> # closed_at cfg k pick (Suc i) as"

text \<open>One pass of the loop body; \<open>Running\<close> means the loop goes round again.\<close>

definition iteration ::
  "(PingTimes \<Rightarrow> duration) \<Rightarrow> config \<Rightarrow> string \<Rightarrow> int \<Rightarrow> lstate \<Rightarrow> attempt \<Rightarrow> status \<times> lstate" where
  "iteration rt cfg url n s a =
     (case fetch a of
        None \<Rightarrow>
          let s1 = s\<lparr>failcount := failcount s + 1, probes := Suc (probes s)\<rparr>
          in if maxFails cfg \<le> failcount s1
             then (Returned FailureCeiling,
                   s1\<lparr>out := out s1 @ FetchFailureLog (failcount s1) (maxFails cfg) url
                                 # (if count s1 = 0 then [NoValidSamples] else [])\<rparr>)
             else after_attempt n s1 a
      | Some pt \<Rightarrow>
          let s1 = record_sample (s\<lparr>probes := Suc (probes s)\<rparr>) pt;
              s2 = s1\<lparr>count := count s1 + 1\<rparr>;
              s3 = s2\<lparr>out := out s2
                                @ (if jsonFlag cfg then [SampleJson pt] else [SampleLine (count s2) pt])
                                @ publish_cloudwatch rt cfg url pt @ publish_webhook cfg a pt\<rparr>
          in if alertThresh cfg <s rt pt
             then (case sendAlert rt cfg (twilio a) (lastAlert s3) pt url of
                     (la, evs, fl) \<Rightarrow>
                       let s4 = s3\<lparr>lastAlert := la, out := out s3 @ evs\<rparr>
                       in (case fl of
                             Panicked \<Rightarrow> (Crashed, s4)
                           | Normal \<Rightarrow> after_attempt n s4 a))
             else after_attempt n s3 a)"

text \<open>
  The \<^verbatim>\<open>for\<close> loop over the passes the environment supplies; \<open>Running\<close> with the
  list used up means the loop has not left yet.
\<close>

fun loop ::
  "(PingTimes \<Rightarrow> duration) \<Rightarrow> config \<Rightarrow> string \<Rightarrow> int \<Rightarrow> lstate \<Rightarrow> attempt list \<Rightarrow> status \<times> lstate" where
  "loop rt cfg url n s [] = (Running, s)"
| "loop rt cfg url n s (a # as) =
     (case iteration rt cfg url n s a of
        (Running, s') \<Rightarrow> loop rt cfg url n s' as
      | (st, s') \<Rightarrow> (st, s'))"

text \<open>
  Go's \<^verbatim>\<open>/\<close> on \<^verbatim>\<open>int64\<close> truncates towards zero, and wraps for the one quotient
  that does not fit.
\<close>

definition go_div :: "int64 \<Rightarrow> int64 \<Rightarrow> int64" where
  "go_div a b = word_of_int (sint a sdiv sint b)"

text \<open>
  The deferred summary printer, with \<^verbatim>\<open>fc := float64(count)\<close>.  Each average is
  \<^verbatim>\<open>util.Msec(x)/fc\<close>; the size is divided in \<^verbatim>\<open>int64\<close>, which panics for a zero
  count.  The elapsed time is kept in seconds.
\<close>

definition summary_printer :: "(PingTimes \<Rightarrow> duration) \<Rightarrow> int \<Rightarrow> lstate \<Rightarrow> summary option" where
  "summary_printer rt now s =
     (if count s = 0 then None
      else Some
        \<lparr>samples = count s,
         elapsed = now - Start (ptSummary s),
         avgDnsLk = fdiv (Msec (DnsLk (ptSummary s))) (float64_of_int (count s)),
         avgTcpHs = fdiv (Msec (TcpHs (ptSummary s))) (float64_of_int (count s)),
         avgTlsHs = fdiv (Msec (TlsHs (ptSummary s))) (float64_of_int (count s)),
         avgReply = fdiv (Msec (Reply (ptSummary s))) (float64_of_int (count s)),
         avgClose = fdiv (Msec (Close (ptSummary s))) (float64_of_int (count s)),
         avgRespTime = fdiv (Msec (rt (ptSummary s))) (float64_of_int (count s)),
         avgSize = go_div (Size (ptSummary s)) (word_of_int (count s)),
         dest = DestUrl (ptSummary s)\<rparr>)"

text \<open>Leaving \<^verbatim>\<open>testHttp\<close>, by return or by panic, runs the printer if it was deferred.\<close>

definition run_deferred :: "(PingTimes \<Rightarrow> duration) \<Rightarrow> int \<Rightarrow> status \<Rightarrow> lstate \<Rightarrow> status \<times> lstate" where
  "run_deferred rt now st s =
     (if deferred s
      then (case summary_printer rt now s of
              None \<Rightarrow> (Crashed, s)
            | Some r \<Rightarrow> (st, s\<lparr>out := out s @ [SummaryReport r]\<rparr>))
      else (st, s))"

definition init_state :: "config \<Rightarrow> string \<Rightarrow> int \<Rightarrow> lstate" where
  "init_state cfg url la =
     \<lparr>count = 0, failcount = 0, ptSummary = PingTimes_zero, deferred = False, lastAlert = la,
      probes = 0, out = (if 2 < verbose cfg then [TestLog url] else [])\<rparr>"

text \<open>
  \<^verbatim>\<open>testHttp(uri, numTries, done, wg)\<close>, with the target string as \<^verbatim>\<open>util.ParseURL\<close>
  rebuilds it, the value of \<^verbatim>\<open>lastAlert\<close> at entry, and the clock reading at exit.
\<close>

definition numTries_cap :: "int \<Rightarrow> int" where
  "numTries_cap numTries = (if numTries = 0 then 2147483647 else numTries)"

definition testHttp ::
  "(PingTimes \<Rightarrow> duration) \<Rightarrow> config \<Rightarrow> string \<Rightarrow> int \<Rightarrow> int \<Rightarrow> int \<Rightarrow> attempt list \<Rightarrow> status \<times> lstate" where
  "testHttp rt cfg url numTries la now attempts =
     (case loop rt cfg url (numTries_cap numTries) (init_state cfg url la) attempts of
        (Running, s) \<Rightarrow> (Running, s)
      | (st, s) \<Rightarrow> run_deferred rt now st s)"

text \<open>The samples among some passes, in order.\<close>

fun samples_of :: "attempt list \<Rightarrow> PingTimes list" where
  "samples_of [] = []"
| "samples_of (a # as) = (case fetch a of None \<Rightarrow> samples_of as | Some pt \<Rightarrow> pt # samples_of as)"

fun is_summary :: "event \<Rightarrow> bool" where
  "is_summary (SummaryReport r) = True"
| "is_summary e = False"

text \<open>
  The sums the loop builds up: the first sample is copied, every later one is added to it.
\<close>

fun totals :: "PingTimes list \<Rightarrow> PingTimes" where
  "totals [] = PingTimes_zero"
| "totals (x # xs) = foldl add_sample x xs"

text \<open>The locals of the loop after the samples \<open>seen\<close> have been recorded.\<close>

definition summed :: "PingTimes list \<Rightarrow> lstate \<Rightarrow> bool" where
  "summed seen s =
     (count s = int (length seen) \<and> deferred s = (seen \<noteq> []) \<and>
      (seen \<noteq> [] \<longrightarrow> ptSummary s = totals seen))"

text \<open>
  The summary as the specification words it: for every field, the sum over all successful
  samples divided by their number.  For a duration this is the quotient of two real
  numbers, the milliseconds of the sum and the count as a \<^verbatim>\<open>float64\<close>, rounded once.
  For the size it is the quotient of two integers, rounded towards zero.
\<close>

definition average_of :: "(PingTimes \<Rightarrow> duration) \<Rightarrow> PingTimes list \<Rightarrow> float64" where
  "average_of f xs = (\<lambda>ms rnd. rnd (ms (sum_list (map f xs)) / rnd (real (length xs))))"

definition trunc_quotient :: "int \<Rightarrow> int \<Rightarrow> int" where
  "trunc_quotient a n = (if 0 \<le> a then a div n else - ((- a) div n))"

definition spec_summary :: "(PingTimes \<Rightarrow> duration) \<Rightarrow> int \<Rightarrow> PingTimes list \<Rightarrow> summary" where
  "spec_summary rt now xs =
     \<lparr>samples = int (length xs),
      elapsed = now - Start (hd xs),
      avgDnsLk = average_of DnsLk xs,
      avgTcpHs = average_of TcpHs xs,
      avgTlsHs = average_of TlsHs xs,
      avgReply = average_of Reply xs,
      avgClose = average_of Close xs,
      avgRespTime = average_of rt xs,
      avgSize = word_of_int (trunc_quotient (sint (sum_list (map Size xs))) (int (length xs))),
      dest = DestUrl (hd xs)\<rparr>"

section \<open>Calls of sendAlert, one after another and interleaved\<close>

text \<open>
  \<^verbatim>\<open>main\<close> builds the key from the two environment variables, so a key that is not
  empty has a colon.
\<close>

definition main_twilioKey :: "string \<Rightarrow> string \<Rightarrow> string" where
  "main_twilioKey tas tat = (if tas \<noteq> [] \<and> tat \<noteq> [] then tas @ '':'' @ tat else [])"

definition configured :: "config \<Rightarrow> bool" where
  "configured cfg = (CHR '':'' \<in> set (twilioKey cfg) \<and> twilioSms cfg \<noteq> [])"

text \<open>
  Calls of \<^verbatim>\<open>sendAlert\<close> that run one after another, from any of the loops, each on the
  \<^verbatim>\<open>lastAlert\<close> the one before left.  A panic ends the process.
\<close>

fun sendAlerts ::
  "(PingTimes \<Rightarrow> duration) \<Rightarrow> config \<Rightarrow> int \<Rightarrow> ((nat \<Rightarrow> http_reply) \<times> PingTimes \<times> string) list
     \<Rightarrow> (int \<times> event list \<times> flow) list" where
  "sendAlerts rt cfg la [] = []"
| "sendAlerts rt cfg la ((net, pt, url) # calls) =
     (case sendAlert rt cfg net la pt url of
        (la', evs, Panicked) \<Rightarrow> [(la', evs, Panicked)]
      | (la', evs, Normal) \<Rightarrow> (la', evs, Normal) # sendAlerts rt cfg la' calls)"

definition alerts_dispatched :: "(int \<times> event list \<times> flow) list \<Rightarrow> nat" where
  "alerts_dispatched rs = length (filter dispatched rs)"

text \<open>
  \<^verbatim>\<open>lastAlert\<close> is a plain package-level \<^verbatim>\<open>int64\<close> and \<^verbatim>\<open>sendAlert\<close> takes no lock,
  so calls from two goroutines interleave statement by statement.  A call is at its entry
  (line 418 reads \<^verbatim>\<open>lastAlert\<close>), at the check of line 424 with the difference it
  computed, at the assignment of line 430, at the dispatch of lines 432 to 438, or done.
\<close>

datatype apc = AtEntry | AtCheck int | AtUpdate | AtDispatch | AtReturn

record acall =
  pc :: apc
  sample :: PingTimes
  target :: string
  replies :: "nat \<Rightarrow> http_reply"
  emitted :: "event list"
  ended :: flow

definition call_step :: "(PingTimes \<Rightarrow> duration) \<Rightarrow> config \<Rightarrow> int \<Rightarrow> acall \<Rightarrow> int \<times> acall" where
  "call_step rt cfg la c =
     (case pc c of
        AtEntry \<Rightarrow>
          (la, c\<lparr>pc := AtCheck (Start (sample c) - la),
                 emitted := emitted c @
                   (if 0 < verbose cfg
                    then [AlertLog (AlertMsg (rt (sample c)) (target c) (alertThresh cfg))]
                    else [])\<rparr>)
      | AtCheck timeSinceLast \<Rightarrow>
          if timeSinceLast < alertInterval cfg
          then (la, c\<lparr>pc := AtReturn,
                      emitted := emitted c @ (if 1 < verbose cfg then [TooSoonLog] else [])\<rparr>)
          else (la, c\<lparr>pc := AtUpdate\<rparr>)
      | AtUpdate \<Rightarrow> (Start (sample c), c\<lparr>pc := AtDispatch\<rparr>)
      | AtDispatch \<Rightarrow>
          if twilioKey cfg = [] \<or> twilioSms cfg = []
          then (la, c\<lparr>pc := AtReturn, emitted := emitted c @ [NowhereLog (target c)]\<rparr>)
          else (case sendTwilio_range cfg (replies c)
                       (AlertMsg (rt (sample c)) (target c) (alertThresh cfg))
                       (twilioKey cfg) 0 (twilioSms cfg) of
                  (evs, fl) \<Rightarrow> (la, c\<lparr>pc := AtReturn, emitted := emitted c @ evs, ended := fl\<rparr>))
      | AtReturn \<Rightarrow> (la, c))"

text \<open>Two calls and the shared variable, stepped in the order a schedule gives.\<close>

datatype who = First | Second

fun interleave ::
  "(PingTimes \<Rightarrow> duration) \<Rightarrow> config \<Rightarrow> who list \<Rightarrow> int \<times> acall \<times> acall \<Rightarrow> int \<times> acall \<times> acall" where
  "interleave rt cfg [] g = g"
| "interleave rt cfg (First # ws) (la, a, b) =
     (case call_step rt cfg la a of (la', a') \<Rightarrow> interleave rt cfg ws (la', a', b))"
| "interleave rt cfg (Second # ws) (la, a, b) =
     (case call_step rt cfg la b of (la', b') \<Rightarrow> interleave rt cfg ws (la', a, b'))"

fun other :: "who \<Rightarrow> who" where
  "other First = Second"
| "other Second = First"

definition enter :: "PingTimes \<Rightarrow> string \<Rightarrow> (nat \<Rightarrow> http_reply) \<Rightarrow> acall" where
  "enter pt url net =
     \<lparr>pc = AtEntry, sample = pt, target = url, replies = net, emitted = [], ended = Normal\<rparr>"

definition posted :: "acall \<Rightarrow> bool" where
  "posted c = (filter is_post (emitted c) \<noteq> [])"

text \<open>
  What holds of the two calls once the first has written \<^verbatim>\<open>lastAlert\<close> and the second
  has not yet read it, and from then on.
\<close>

definition serialised :: "config \<Rightarrow> PingTimes \<Rightarrow> PingTimes \<Rightarrow> int \<times> acall \<times> acall \<Rightarrow> bool" where
  "serialised cfg p1 p2 g =
     (case g of (la, a, b) \<Rightarrow>
        (pc a = AtDispatch \<or> pc a = AtReturn) \<and> sample b = p2 \<and> \<not> posted b \<and>
        (case pc b of
           AtEntry \<Rightarrow> la = Start p1
         | AtCheck timeSinceLast \<Rightarrow> timeSinceLast < alertInterval cfg
         | AtUpdate \<Rightarrow> False
         | AtDispatch \<Rightarrow> False
         | AtReturn \<Rightarrow> True))"

section \<open>The signal handler\<close>

text \<open>
  The goroutine of \<^verbatim>\<open>main\<close> that ranges over \<^verbatim>\<open>sigchan\<close>.  The channel made by
  \<^verbatim>\<open>make(chan int)\<close> is an address; \<open>closed\<close> holds the channels that are closed, and
  \<open>doneChan\<close> is the variable of \<^verbatim>\<open>main\<close>, \<open>None\<close> for \<^verbatim>\<open>nil\<close>.  The loops keep the
  address they were started with.  Closing a closed channel panics.
\<close>

type_synonym chan = nat

datatype hevent = Ack string | CloseChan chan

record hstate =
  closed :: "chan set"
  doneChan :: "chan option"
  trace :: "hevent list"

definition close_chan :: "chan \<Rightarrow> chan set \<Rightarrow> chan set option" where
  "close_chan c cl = (if c \<in> cl then None else Some (insert c cl))"

text \<open>
  One signal: \<^verbatim>\<open>fmt.Println("\nreceived", sig, "signal, terminating")\<close>, then
  \<^verbatim>\<open>if doneChan != nil { close(doneChan); doneChan = nil }\<close>.
\<close>

definition on_signal :: "string \<Rightarrow> hstate \<Rightarrow> hstate option" where
  "on_signal sig h =
     (let h1 = h\<lparr>trace := trace h @ [Ack sig]\<rparr>
      in case doneChan h1 of
           None \<Rightarrow> Some h1
         | Some c \<Rightarrow>
             (case close_chan c (closed h1) of
                None \<Rightarrow> None
              | Some cl \<Rightarrow>
                  Some (h1\<lparr>closed := cl, doneChan := None, trace := trace h1 @ [CloseChan c]\<rparr>)))"

fun handler :: "hstate \<Rightarrow> string list \<Rightarrow> hstate option" where
  "handler h [] = Some h"
| "handler h (sig # sigs) =
     (case on_signal sig h of None \<Rightarrow> None | Some h' \<Rightarrow> handler h' sigs)"

definition handler_init :: "chan \<Rightarrow> hstate" where
  "handler_init c = \<lparr>closed = {}, doneChan = Some c, trace = []\<rparr>"

fun is_close :: "hevent \<Rightarrow> bool" where
  "is_close (CloseChan c) = True"
| "is_close e = False"

section \<open>Worked inputs\<close>

text \<open>
  A configuration with the default limits, a threshold of 100 ms, and one recipient; the
  same without credentials; samples, replies and passes of the loop to run the model on.
\<close>

definition demo_cfg :: config where
  "demo_cfg =
     \<lparr>delayFlag = 10, maxFails = 10, jsonFlag = False, cwFlag = False, whClient = False, verbose = 0,
      alertThresh = 100000000, alertInterval = 300,
      twilioKey = ''AC1:tok'', twilioSms = [''+15550100'']\<rparr>"

definition unconfigured_cfg :: config where
  "unconfigured_cfg = demo_cfg\<lparr>twilioKey := [], twilioSms := []\<rparr>"

definition sample_at :: "int \<Rightarrow> duration \<Rightarrow> PingTimes" where
  "sample_at t d =
     \<lparr>Start = t, DnsLk = 1000000, TcpHs = 2000000, TlsHs = 3000000, Reply = d, Close = 0,
      Total = d + 6000000, DestUrl = ''https://a.example/'', Remote = ''192.0.2.1'',
      RespCode = 200, Size = 1000\<rparr>"

definition accepted :: "nat \<Rightarrow> http_reply" where
  "accepted i = Response 201 (Some ''SM1'')"

definition unreachable :: "nat \<Rightarrow> http_reply" where
  "unreachable i = TransportError"

definition failed :: "wait_result \<Rightarrow> attempt" where
  "failed w = \<lparr>fetch = None, post = PostOk, twilio = accepted, wait = w\<rparr>"

definition probe_ok :: "int \<Rightarrow> duration \<Rightarrow> (nat \<Rightarrow> http_reply) \<Rightarrow> wait_result \<Rightarrow> attempt" where
  "probe_ok t d net w = \<lparr>fetch = Some (sample_at t d), post = PostOk, twilio = net, wait = w\<rparr>"

definition probe_sized :: "int \<Rightarrow> duration \<Rightarrow> int64 \<Rightarrow> attempt" where
  "probe_sized t d z =
     \<lparr>fetch = Some ((sample_at t d)\<lparr>Size := z\<rparr>), post = PostOk, twilio = accepted,
      wait = DelayElapsed\<rparr>"

definition scenario_A :: "attempt list" where
  "scenario_A =
     [probe_sized 1700000000 4000000 1000,
      probe_sized 1700000010 15000000 2501,
      probe_sized 1700000020 24000000 3000]"

definition scenario_B :: "attempt list" where
  "scenario_B = [failed DelayElapsed, failed DelayElapsed]"


definition unreachable_run :: "attempt list" where
  "unreachable_run =
     [probe_ok 1700000000 150000000 unreachable DelayElapsed,
      probe_ok 1700000010 4000000 accepted DelayElapsed]"

definition stopped_run :: "attempt list" where
  "stopped_run = [failed DoneClosed, failed DelayElapsed, failed DelayElapsed]"

definition failing_run :: "attempt list" where
  "failing_run = [failed DelayElapsed, failed DelayElapsed, failed DelayElapsed]"

definition zero_delay_cfg :: config where
  "zero_delay_cfg = demo_cfg\<lparr>delayFlag := 0\<rparr>"

definition timer_twice :: "nat \<Rightarrow> wait_result" where
  "timer_twice i = (if i < 2 then DelayElapsed else DoneClosed)"

definition msec_demo :: "duration \<Rightarrow> real" where
  "msec_demo d = real_of_int (sint d) / 1000000"

definition exact :: "real \<Rightarrow> real" where
  "exact x = x"

definition final_state :: "int \<Rightarrow> nat \<Rightarrow> event list \<Rightarrow> lstate" where
  "final_state f p evs =
     \<lparr>count = 0, failcount = f, ptSummary = PingTimes_zero, deferred = False, lastAlert = 0,
      probes = p, out = evs\<rparr>"

section \<open>Running the model\<close>

text \<open>The equations that evaluate the model on a given input.\<close>

lemmas run_defs =
  testHttp_def numTries_cap_def init_state_def iteration_def after_attempt_def record_sample_def
  add_sample_def publish_cloudwatch_def publish_webhook_def publishJSON_def sendAlert_def
  sendTwilio_def run_deferred_def summary_printer_def Let_def
  demo_cfg_def unconfigured_cfg_def sample_at_def probe_ok_def failed_def accepted_def unreachable_def
  select_case_def zero_delay_cfg_def timer_twice_def

lemma go_div_demo: "go_div 3501 2 = 1750 \<and> go_div (- 7) 2 = - 3"
  by (simp add: go_div_def signed_divide_int_def)

section \<open>The alert manager\<close>

lemma main_twilioKey_colon:
  "main_twilioKey tas tat \<noteq> [] \<Longrightarrow> CHR '':'' \<in> set (main_twilioKey tas tat)"
  by (simp add: main_twilioKey_def split: if_splits)

lemma sendTwilio_posts:
  assumes "CHR '':'' \<in> set key" and "reply \<noteq> RequestError"
  shows "filter is_post (fst (sendTwilio cfg reply msg key sms)) \<noteq> []"
  using assms by (cases reply) (auto simp: sendTwilio_def Let_def split: option.splits)

lemma sendTwilio_RequestError:
  "sendTwilio cfg RequestError msg key sms =
     (if CHR '':'' \<notin> set key then ([BadKeyLog], Normal)
      else ((if 1 < verbose cfg then [TwilioLog sms] else []), Panicked))"
  by (simp add: sendTwilio_def Let_def)

lemma sendTwilio_range_posts:
  assumes k: "CHR '':'' \<in> set key" and ne: "smss \<noteq> []" and built: "net i \<noteq> RequestError"
  shows "filter is_post (fst (sendTwilio_range cfg net msg key i smss)) \<noteq> []"
proof -
  from ne obtain sms rest where smss: "smss = sms # rest"
    by (cases smss) auto
  obtain evs fl where st: "sendTwilio cfg (net i) msg key sms = (evs, fl)"
    by (cases "sendTwilio cfg (net i) msg key sms")
  with sendTwilio_posts [OF k built, of cfg msg sms] have "filter is_post evs \<noteq> []"
    by simp
  then show ?thesis using smss st
    by (cases fl) (auto split: prod.splits)
qed

lemma sendAlert_suppressed:
  assumes "Start pt - la < alertInterval cfg"
  shows "sendAlert rt cfg net la pt url =
       (la, (if 0 < verbose cfg then [AlertLog (AlertMsg (rt pt) url (alertThresh cfg))] else [])
              @ (if 1 < verbose cfg then [TooSoonLog] else []), Normal)"
  using assms by (simp add: sendAlert_def Let_def)

lemma sendAlert_suppressed_not_dispatched:
  "Start pt - la < alertInterval cfg \<Longrightarrow> \<not> dispatched (sendAlert rt cfg net la pt url)"
  by (simp add: sendAlert_suppressed dispatched_def)

lemma sendAlert_passed_lastAlert:
  "alertInterval cfg \<le> Start pt - la \<Longrightarrow> fst (sendAlert rt cfg net la pt url) = Start pt"
  by (simp add: sendAlert_def Let_def split: prod.splits)

lemma sendAlert_passed_dispatched:
  assumes "alertInterval cfg \<le> Start pt - la" and "configured cfg" and "net 0 \<noteq> RequestError"
  shows "dispatched (sendAlert rt cfg net la pt url)"
proof -
  from assms(2) have k: "CHR '':'' \<in> set (twilioKey cfg)" and ne: "twilioSms cfg \<noteq> []"
    by (simp_all add: configured_def)
  from k have key: "twilioKey cfg \<noteq> []" by auto
  obtain evs fl where rg:
    "sendTwilio_range cfg net (AlertMsg (rt pt) url (alertThresh cfg)) (twilioKey cfg) 0 (twilioSms cfg)
       = (evs, fl)"
    by (cases "sendTwilio_range cfg net (AlertMsg (rt pt) url (alertThresh cfg)) (twilioKey cfg) 0
                 (twilioSms cfg)")
  with sendTwilio_range_posts [where net = net and i = 0 and cfg = cfg
      and msg = "AlertMsg (rt pt) url (alertThresh cfg)", OF k ne assms(3)]
  have "filter is_post evs \<noteq> []" by simp
  with assms(1) ne key rg show ?thesis
    by (simp add: sendAlert_def Let_def dispatched_def)
qed

lemma sendAlert_nowhere:
  assumes "alertInterval cfg \<le> Start pt - la" and "twilioKey cfg = [] \<or> twilioSms cfg = []"
  shows "sendAlert rt cfg net la pt url =
       (Start pt, (if 0 < verbose cfg then [AlertLog (AlertMsg (rt pt) url (alertThresh cfg))] else [])
              @ [NowhereLog url], Normal)"
  using assms by (auto simp add: sendAlert_def Let_def)

lemma sendAlert_lastAlert_cases:
  "fst (sendAlert rt cfg net la pt url) =
     (if Start pt - la < alertInterval cfg then la else Start pt)"
  by (simp add: sendAlert_def Let_def split: prod.splits)

lemma sendAlerts_two:
  "sendAlerts rt cfg la [(n1, p1, u1), (n2, p2, u2)] =
     (let r1 = sendAlert rt cfg n1 la p1 u1
      in if snd (snd r1) = Panicked then [r1]
         else let r2 = sendAlert rt cfg n2 (fst r1) p2 u2 in [r1, r2])"
proof -
  obtain la1 e1 f1 where r1: "sendAlert rt cfg n1 la p1 u1 = (la1, e1, f1)"
    by (cases "sendAlert rt cfg n1 la p1 u1")
  obtain la2 e2 f2 where r2: "sendAlert rt cfg n2 la1 p2 u2 = (la2, e2, f2)"
    by (cases "sendAlert rt cfg n2 la1 p2 u2")
  show ?thesis
    using r1 r2 by (cases f1; cases f2) (simp_all add: Let_def)
qed

lemma two_near_not_both:
  assumes near: "Start p2 - Start p1 < alertInterval cfg"
  shows "\<not> (dispatched (sendAlert rt cfg n1 la p1 u1) \<and>
            dispatched (sendAlert rt cfg n2 (fst (sendAlert rt cfg n1 la p1 u1)) p2 u2))"
proof (cases "Start p1 - la < alertInterval cfg")
  case True
  then show ?thesis
    using sendAlert_suppressed_not_dispatched by blast
next
  case False
  then have "fst (sendAlert rt cfg n1 la p1 u1) = Start p1"
    by (simp add: sendAlert_lastAlert_cases)
  with near show ?thesis
    using sendAlert_suppressed_not_dispatched [of p2 "Start p1" cfg rt n2 u2] by simp
qed

text \<open>
  Claim C1, as the code has it.  Of two breaching samples whose start timestamps are less
  than the debounce interval apart, handed to \<^verbatim>\<open>sendAlert\<close> one after the other from the
  same or from different targets, at most one is dispatched, never both.  Exactly one is
  dispatched when credentials and a recipient are configured, the request for the first
  recipient can be built, and the first sample is at least the interval after the
  last-alert timestamp.  A sample at least the interval after the last-alert timestamp
  sets that timestamp to its own start, and is dispatched when credentials and a recipient
  are configured and the request for the first recipient can be built.
\<close>

theorem debounce_two_samples:
  assumes near: "\<bar>Start p2 - Start p1\<bar> < alertInterval cfg"
  shows "alerts_dispatched (sendAlerts rt cfg la [(n1, p1, u1), (n2, p2, u2)]) \<le> 1 \<and>
         (configured cfg \<and> n1 0 \<noteq> RequestError \<and> alertInterval cfg \<le> Start p1 - la \<longrightarrow>
            alerts_dispatched (sendAlerts rt cfg la [(n1, p1, u1), (n2, p2, u2)]) = 1) \<and>
         (alertInterval cfg \<le> Start p3 - la3 \<longrightarrow>
            fst (sendAlert rt cfg n3 la3 p3 u3) = Start p3 \<and>
            (configured cfg \<and> n3 0 \<noteq> RequestError \<longrightarrow>
               dispatched (sendAlert rt cfg n3 la3 p3 u3)))"
proof -
  from near have near': "Start p2 - Start p1 < alertInterval cfg"
    by simp
  note nb = two_near_not_both [OF near', of rt n1 la u1 n2 u2]
  have most: "alerts_dispatched (sendAlerts rt cfg la [(n1, p1, u1), (n2, p2, u2)]) \<le> 1"
    using nb by (auto simp: sendAlerts_two alerts_dispatched_def Let_def simp del: sendAlerts.simps)
  have one: "alerts_dispatched (sendAlerts rt cfg la [(n1, p1, u1), (n2, p2, u2)]) = 1"
    if "configured cfg" and "n1 0 \<noteq> RequestError" and "alertInterval cfg \<le> Start p1 - la"
    using nb sendAlert_passed_dispatched [where net = n1 and rt = rt and url = u1, OF that(3,1,2)]
    by (auto simp: sendAlerts_two alerts_dispatched_def Let_def simp del: sendAlerts.simps)
  have later: "fst (sendAlert rt cfg n3 la3 p3 u3) = Start p3 \<and>
           (configured cfg \<and> n3 0 \<noteq> RequestError \<longrightarrow>
              dispatched (sendAlert rt cfg n3 la3 p3 u3))"
    if "alertInterval cfg \<le> Start p3 - la3"
    using that sendAlert_passed_lastAlert [OF that]
      sendAlert_passed_dispatched [where net = n3 and rt = rt and url = u3, OF that]
    by blast
  from most one later show ?thesis
    by blast
qed

theorem debounce_two_samples_witness:
  "alerts_dispatched (sendAlerts Total demo_cfg 0
      [(accepted, sample_at 1700000000 150000000, ''https://a.example/''),
       (accepted, sample_at 1700000100 150000000, ''https://b.example/'')]) = 1 \<and>
   fst (sendAlert Total demo_cfg accepted 1700000000 (sample_at 1700000400 150000000) ''https://a.example/'')
     = 1700000400 \<and>
   dispatched (sendAlert Total demo_cfg accepted 1700000000 (sample_at 1700000400 150000000)
     ''https://a.example/'')"
proof -
  have near: "\<bar>Start (sample_at 1700000100 150000000) - Start (sample_at 1700000000 150000000)\<bar>
     < alertInterval demo_cfg"
    by (simp add: sample_at_def demo_cfg_def)
  have conf: "configured demo_cfg"
    by (simp add: configured_def demo_cfg_def)
  have far: "alertInterval demo_cfg \<le> Start (sample_at 1700000000 150000000) - 0"
    by (simp add: sample_at_def demo_cfg_def)
  have far3: "alertInterval demo_cfg \<le> Start (sample_at 1700000400 150000000) - 1700000000"
    by (simp add: sample_at_def demo_cfg_def)
  have s3: "Start (sample_at 1700000400 150000000) = 1700000400"
    by (simp add: sample_at_def)
  have built: "accepted 0 \<noteq> RequestError"
    by (simp add: accepted_def)
  from debounce_two_samples [OF near, where rt = Total and la = 0 and ?n1.0 = accepted
      and ?u1.0 = "''https://a.example/''" and ?n2.0 = accepted and ?u2.0 = "''https://b.example/''"
      and ?p3.0 = "sample_at 1700000400 150000000" and ?la3.0 = 1700000000 and ?n3.0 = accepted
      and ?u3.0 = "''https://a.example/''"]
    conf far far3 built
  show ?thesis
    unfolding s3 by blast
qed

text \<open>
  As the claim states it, exactly one alert is dispatched for any two such samples.  With
  no credentials in the environment, which is how the program starts when none are set, two
  breaching samples 100 seconds apart dispatch none.  With credentials, two samples 100
  and 200 seconds after an alert dispatch none either.
\<close>

theorem debounce_exactly_one_counterexample:
  "alerts_dispatched (sendAlerts Total unconfigured_cfg 0
      [(accepted, sample_at 1700000000 150000000, ''https://a.example/''),
       (accepted, sample_at 1700000100 150000000, ''https://b.example/'')]) = 0 \<and>
   alerts_dispatched (sendAlerts Total demo_cfg 1700000000
      [(accepted, sample_at 1700000100 150000000, ''https://a.example/''),
       (accepted, sample_at 1700000200 150000000, ''https://b.example/'')]) = 0"
  by (simp add: alerts_dispatched_def dispatched_def sendAlert_def unconfigured_cfg_def
        demo_cfg_def sample_at_def Let_def)

text \<open>
  Claim C10.  When a breaching sample arrives outside the debounce interval and no
  credentials or no recipients are configured, \<^verbatim>\<open>sendAlert\<close> sets the last-alert
  timestamp to the sample's start before it finds nowhere to send to, and dispatches
  nothing; a later breaching sample within the interval of that one is suppressed, so that
  none of the two is dispatched.
\<close>

theorem unconfigured_alert_consumes_debounce:
  assumes "alertInterval cfg \<le> Start pt - la"
    and "twilioKey cfg = [] \<or> twilioSms cfg = []"
    and "Start pt2 - Start pt < alertInterval cfg"
  shows "sendAlert rt cfg net la pt url =
           (Start pt,
            (if 0 < verbose cfg then [AlertLog (AlertMsg (rt pt) url (alertThresh cfg))] else [])
              @ [NowhereLog url], Normal) \<and>
         \<not> dispatched (sendAlert rt cfg net la pt url) \<and>
         \<not> dispatched (sendAlert rt cfg net2 (Start pt) pt2 url2) \<and>
         fst (sendAlert rt cfg net2 (Start pt) pt2 url2) = Start pt \<and>
         alerts_dispatched (sendAlerts rt cfg la [(net, pt, url), (net2, pt2, url2)]) = 0"
proof -
  note r1 = sendAlert_nowhere [OF assms(1,2), of rt net url]
  have a1: "fst (sendAlert rt cfg net la pt url) = Start pt"
    by (simp add: r1)
  have a2: "\<not> dispatched (sendAlert rt cfg net la pt url)"
    by (simp add: r1 dispatched_def)
  have a3: "\<not> dispatched (sendAlert rt cfg net2 (Start pt) pt2 url2)"
    using sendAlert_suppressed_not_dispatched [OF assms(3)] .
  have a4: "fst (sendAlert rt cfg net2 (Start pt) pt2 url2) = Start pt"
    using assms(3) by (simp add: sendAlert_lastAlert_cases)
  have "alerts_dispatched (sendAlerts rt cfg la [(net, pt, url), (net2, pt2, url2)]) = 0"
    using a1 a2 a3 by (simp add: sendAlerts_two alerts_dispatched_def Let_def del: sendAlerts.simps)
  with r1 a2 a3 a4 show ?thesis
    by simp
qed

theorem unconfigured_alert_consumes_debounce_witness:
  "fst (sendAlert Total unconfigured_cfg accepted 0 (sample_at 1700000000 150000000)
          ''https://a.example/'') = 1700000000 \<and>
   \<not> dispatched (sendAlert Total unconfigured_cfg accepted 0 (sample_at 1700000000 150000000)
          ''https://a.example/'') \<and>
   \<not> dispatched (sendAlert Total unconfigured_cfg accepted 1700000000
          (sample_at 1700000100 150000000) ''https://b.example/'') \<and>
   fst (sendAlert Total unconfigured_cfg accepted 1700000000
          (sample_at 1700000100 150000000) ''https://b.example/'') = 1700000000"
proof -
  have far: "alertInterval unconfigured_cfg \<le> Start (sample_at 1700000000 150000000) - 0"
    by (simp add: sample_at_def unconfigured_cfg_def demo_cfg_def)
  have none: "twilioKey unconfigured_cfg = [] \<or> twilioSms unconfigured_cfg = []"
    by (simp add: unconfigured_cfg_def)
  have near: "Start (sample_at 1700000100 150000000) - Start (sample_at 1700000000 150000000)
                < alertInterval unconfigured_cfg"
    by (simp add: sample_at_def unconfigured_cfg_def demo_cfg_def)
  have s1: "Start (sample_at 1700000000 150000000) = 1700000000"
    by (simp add: sample_at_def)
  from unconfigured_alert_consumes_debounce [OF far none near, of Total accepted
      "''https://a.example/''" accepted "''https://b.example/''"]
  show ?thesis
    unfolding s1 by (simp add: dispatched_def)
qed

lemma sendTwilio_transport_error:
  "CHR '':'' \<in> set key \<Longrightarrow> snd (sendTwilio cfg TransportError msg key sms) = Panicked"
  by (simp add: sendTwilio_def Let_def)

lemma sendTwilio_Normal:
  "answered reply \<Longrightarrow> snd (sendTwilio cfg reply msg key sms) = Normal"
  by (cases reply) (simp_all add: sendTwilio_def Let_def)

lemma sendTwilio_range_Normal:
  "\<forall>i. answered (net i) \<Longrightarrow> snd (sendTwilio_range cfg net msg key i smss) = Normal"
proof (induction smss arbitrary: i)
  case Nil
  show ?case by simp
next
  case (Cons sms rest)
  obtain evs fl where st: "sendTwilio cfg (net i) msg key sms = (evs, fl)"
    by (cases "sendTwilio cfg (net i) msg key sms")
  with Cons.prems sendTwilio_Normal [of "net i" cfg msg key sms] have "fl = Normal"
    by simp
  with st Cons.IH [OF Cons.prems, of "Suc i"] show ?case
    by (auto split: prod.splits)
qed

lemma sendAlert_Normal:
  assumes "\<forall>i. answered (net i)"
  shows "snd (snd (sendAlert rt cfg net la pt url)) = Normal"
  using sendTwilio_range_Normal [OF assms, of cfg "AlertMsg (rt pt) url (alertThresh cfg)"
      "twilioKey cfg" 0 "twilioSms cfg"]
  by (auto simp: sendAlert_def Let_def split: prod.splits)

text \<open>
  Claim C5 fails on the code.  When the request to the notification service does not
  reach it, \<^verbatim>\<open>client.Do\<close> returns a \<^verbatim>\<open>nil\<close> response; \<^verbatim>\<open>sendTwilio\<close> has discarded
  the error and reads \<^verbatim>\<open>resp.StatusCode\<close>, which panics.  The loop does not go on to its
  second probe: the process ends.  \<^verbatim>\<open>publishJSON\<close>, in the same file, checks the error
  of its POST, logs it and returns.
\<close>

theorem twilio_transport_error_crashes:
  "sendTwilio demo_cfg TransportError (AlertMsg 156000000 ''https://a.example/'' 100000000)
      ''AC1:tok'' ''+15550100''
     = ([TwilioPost ''AC1'' ''tok'' ''+15550100''
           (AlertMsg 156000000 ''https://a.example/'' 100000000)], Panicked) \<and>
   fst (testHttp Total demo_cfg ''https://a.example/'' 0 0 1700000060 unreachable_run) = Crashed \<and>
   probes (snd (testHttp Total demo_cfg ''https://a.example/'' 0 0 1700000060 unreachable_run)) = 1 \<and>
   publishJSON PostError (sample_at 1700000000 150000000)
     = [WebhookPost (sample_at 1700000000 150000000), WebhookErrorLog]"
  by (simp add: run_defs unreachable_run_def)

subsection \<open>Interleaved calls\<close>

lemma call_steps_sendAlert:
  "interleave rt cfg [First, First, First, First] (la, enter pt url net, b) =
     (case sendAlert rt cfg net la pt url of
        (la', evs, fl) \<Rightarrow>
          (la', \<lparr>pc = AtReturn, sample = pt, target = url, replies = net, emitted = evs, ended = fl\<rparr>, b))"
  by (simp add: call_step_def enter_def sendAlert_def Let_def split: prod.splits)

lemma interleave_returned_first:
  "pc a = AtReturn \<Longrightarrow> fst (snd (interleave rt cfg ws (la, a, b))) = a"
proof (induction ws arbitrary: la b)
  case Nil
  then show ?case by simp
next
  case (Cons w ws)
  show ?case
  proof (cases w)
    case First
    with Cons show ?thesis by (simp add: call_step_def)
  next
    case Second
    obtain la' b' where "call_step rt cfg la b = (la', b')"
      by (cases "call_step rt cfg la b")
    with Second Cons show ?thesis by simp
  qed
qed

lemma serialised_step_first:
  assumes "serialised cfg p1 p2 (la, a, b)" and "call_step rt cfg la a = (la', a')"
  shows "serialised cfg p1 p2 (la', a', b)"
  using assms
  by (auto simp: serialised_def call_step_def split: apc.splits if_splits prod.splits)

lemma serialised_step_second:
  assumes "serialised cfg p1 p2 (la, a, b)" and "call_step rt cfg la b = (la', b')"
    and "Start p2 - Start p1 < alertInterval cfg"
  shows "serialised cfg p1 p2 (la', a, b')"
  using assms
  by (auto simp: serialised_def call_step_def posted_def split: apc.splits if_splits prod.splits)

lemma serialised_interleave:
  assumes "serialised cfg p1 p2 g" and "Start p2 - Start p1 < alertInterval cfg"
  shows "serialised cfg p1 p2 (interleave rt cfg ws g)"
  using assms(1)
proof (induction ws arbitrary: g)
  case Nil
  then show ?case by simp
next
  case (Cons w ws)
  obtain la a b where g: "g = (la, a, b)"
    by (cases g)
  show ?case
  proof (cases w)
    case First
    obtain la' a' where st: "call_step rt cfg la a = (la', a')"
      by (cases "call_step rt cfg la a")
    from serialised_step_first [OF Cons.prems [unfolded g] st]
    have "serialised cfg p1 p2 (interleave rt cfg ws (la', a', b))"
      by (rule Cons.IH)
    with First g st show ?thesis by simp
  next
    case Second
    obtain la' b' where st: "call_step rt cfg la b = (la', b')"
      by (cases "call_step rt cfg la b")
    from serialised_step_second [OF Cons.prems [unfolded g] st assms(2)]
    have "serialised cfg p1 p2 (interleave rt cfg ws (la', a, b'))"
      by (rule Cons.IH)
    with Second g st show ?thesis by simp
  qed
qed

lemma other_other: "map other (map other ws) = ws"
proof (induction ws)
  case Nil
  show ?case by simp
next
  case (Cons w ws)
  then show ?case by (cases w) simp_all
qed

text \<open>Exchanging the two calls in the schedule and in the state exchanges them in the result.\<close>

lemma interleave_mirror:
  "interleave rt cfg (map other ws) (la, b, a) =
     (case interleave rt cfg ws (la, a, b) of (la', a', b') \<Rightarrow> (la', b', a'))"
proof (induction ws arbitrary: la a b)
  case Nil
  show ?case by simp
next
  case (Cons w ws)
  show ?case
  proof (cases w)
    case First
    obtain la' a' where st: "call_step rt cfg la a = (la', a')"
      by (cases "call_step rt cfg la a")
    with First Cons [of la' b a'] show ?thesis by simp
  next
    case Second
    obtain la' b' where st: "call_step rt cfg la b = (la', b')"
      by (cases "call_step rt cfg la b")
    with Second Cons [of la' b' a] show ?thesis by simp
  qed
qed

lemma first_call_serial:
  assumes near: "\<bar>Start p2 - Start p1\<bar> < alertInterval cfg"
  shows "\<not> (posted (fst (snd (interleave rt cfg (First # First # First # ws)
                                 (la, enter p1 u1 n1, enter p2 u2 n2)))) \<and>
            posted (snd (snd (interleave rt cfg (First # First # First # ws)
                                 (la, enter p1 u1 n1, enter p2 u2 n2)))))"
proof (cases "Start p1 - la < alertInterval cfg")
  case True
  let ?a = "(enter p1 u1 n1)\<lparr>pc := AtReturn,
               emitted := (if 0 < verbose cfg then [AlertLog (AlertMsg (rt p1) u1 (alertThresh cfg))] else [])
                            @ (if 1 < verbose cfg then [TooSoonLog] else [])\<rparr>"
  have three: "interleave rt cfg (First # First # First # ws) (la, enter p1 u1 n1, enter p2 u2 n2)
                 = interleave rt cfg ws (la, ?a, enter p2 u2 n2)"
    using True by (simp add: call_step_def enter_def)
  have "fst (snd (interleave rt cfg ws (la, ?a, enter p2 u2 n2))) = ?a"
    by (rule interleave_returned_first) simp
  moreover have "\<not> posted ?a"
    by (simp add: posted_def enter_def)
  ultimately show ?thesis
    using three by simp
next
  case False
  let ?a = "(enter p1 u1 n1)\<lparr>pc := AtDispatch,
               emitted := (if 0 < verbose cfg then [AlertLog (AlertMsg (rt p1) u1 (alertThresh cfg))] else [])\<rparr>"
  have three: "interleave rt cfg (First # First # First # ws) (la, enter p1 u1 n1, enter p2 u2 n2)
                 = interleave rt cfg ws (Start p1, ?a, enter p2 u2 n2)"
    using False by (simp add: call_step_def enter_def)
  from near have near': "Start p2 - Start p1 < alertInterval cfg"
    by simp
  have "serialised cfg p1 p2 (Start p1, ?a, enter p2 u2 n2)"
    by (simp add: serialised_def enter_def posted_def)
  from serialised_interleave [OF this near', of rt ws]
  have "\<not> posted (snd (snd (interleave rt cfg ws (Start p1, ?a, enter p2 u2 n2))))"
    by (auto simp: serialised_def split: prod.splits)
  with three show ?thesis by simp
qed

lemma second_call_serial:
  assumes near: "\<bar>Start p2 - Start p1\<bar> < alertInterval cfg"
  shows "\<not> (posted (fst (snd (interleave rt cfg (Second # Second # Second # ws)
                                 (la, enter p1 u1 n1, enter p2 u2 n2)))) \<and>
            posted (snd (snd (interleave rt cfg (Second # Second # Second # ws)
                                 (la, enter p1 u1 n1, enter p2 u2 n2)))))"
proof -
  let ?ws = "First # First # First # map other ws"
  from near have near': "\<bar>Start p1 - Start p2\<bar> < alertInterval cfg"
    by simp
  obtain la' b' a' where r:
    "interleave rt cfg ?ws (la, enter p2 u2 n2, enter p1 u1 n1) = (la', b', a')"
    by (cases "interleave rt cfg ?ws (la, enter p2 u2 n2, enter p1 u1 n1)")
  have one: "\<not> (posted b' \<and> posted a')"
    using first_call_serial [OF near', of rt "map other ws" la u2 n2 u1 n1] r by simp
  have m: "map other ?ws = Second # Second # Second # ws"
    using other_other [of ws] by simp
  have "interleave rt cfg (map other ?ws) (la, enter p1 u1 n1, enter p2 u2 n2) = (la', a', b')"
    unfolding interleave_mirror r by simp
  then have "interleave rt cfg (Second # Second # Second # ws)
               (la, enter p1 u1 n1, enter p2 u2 n2) = (la', a', b')"
    unfolding m .
  then have "fst (snd (interleave rt cfg (Second # Second # Second # ws)
                         (la, enter p1 u1 n1, enter p2 u2 n2))) = a'"
    and "snd (snd (interleave rt cfg (Second # Second # Second # ws)
                         (la, enter p1 u1 n1, enter p2 u2 n2))) = b'"
    by (simp_all only: fst_conv snd_conv)
  with one show ?thesis
    by (simp only:) blast
qed

text \<open>
  Claim C9, as the code has it.  The last-alert timestamp is a bare package-level variable,
  read and conditionally written with no mutual exclusion.  Two calls of \<^verbatim>\<open>sendAlert\<close>
  for samples less than the debounce interval apart do not both dispatch when one of them,
  whichever it is, has read, checked and written the timestamp before the other reads it,
  however the remaining steps interleave.
\<close>

theorem unsynchronised_debounce_serial:
  assumes near: "\<bar>Start p2 - Start p1\<bar> < alertInterval cfg"
  shows "\<not> (posted (fst (snd (interleave rt cfg (First # First # First # ws)
                                 (la, enter p1 u1 n1, enter p2 u2 n2)))) \<and>
            posted (snd (snd (interleave rt cfg (First # First # First # ws)
                                 (la, enter p1 u1 n1, enter p2 u2 n2))))) \<and>
         \<not> (posted (fst (snd (interleave rt cfg (Second # Second # Second # ws)
                                 (la, enter p1 u1 n1, enter p2 u2 n2)))) \<and>
            posted (snd (snd (interleave rt cfg (Second # Second # Second # ws)
                                 (la, enter p1 u1 n1, enter p2 u2 n2)))))"
  using first_call_serial [OF near] second_call_serial [OF near] by simp

theorem unsynchronised_debounce_serial_witness:
  "posted (fst (snd (interleave Total demo_cfg
      [First, First, First, Second, First, Second, Second, Second]
      (0, enter (sample_at 1700000000 150000000) ''https://a.example/'' accepted,
          enter (sample_at 1700000001 150000000) ''https://b.example/'' accepted)))) \<and>
   \<not> posted (snd (snd (interleave Total demo_cfg
      [First, First, First, Second, First, Second, Second, Second]
      (0, enter (sample_at 1700000000 150000000) ''https://a.example/'' accepted,
          enter (sample_at 1700000001 150000000) ''https://b.example/'' accepted)))) \<and>
   posted (snd (snd (interleave Total demo_cfg
      [Second, Second, Second, First, Second, First, First, First]
      (0, enter (sample_at 1700000000 150000000) ''https://a.example/'' accepted,
          enter (sample_at 1700000001 150000000) ''https://b.example/'' accepted)))) \<and>
   \<not> posted (fst (snd (interleave Total demo_cfg
      [Second, Second, Second, First, Second, First, First, First]
      (0, enter (sample_at 1700000000 150000000) ''https://a.example/'' accepted,
          enter (sample_at 1700000001 150000000) ''https://b.example/'' accepted))))"
proof -
  have near: "\<bar>Start (sample_at 1700000001 150000000) - Start (sample_at 1700000000 150000000)\<bar>
      < alertInterval demo_cfg"
    by (simp add: sample_at_def demo_cfg_def)
  have first: "posted (fst (snd (interleave Total demo_cfg
      [First, First, First, Second, First, Second, Second, Second]
      (0, enter (sample_at 1700000000 150000000) ''https://a.example/'' accepted,
          enter (sample_at 1700000001 150000000) ''https://b.example/'' accepted))))"
    by (simp add: call_step_def enter_def posted_def demo_cfg_def sample_at_def sendTwilio_def
          accepted_def Let_def)
  have second: "posted (snd (snd (interleave Total demo_cfg
      [Second, Second, Second, First, Second, First, First, First]
      (0, enter (sample_at 1700000000 150000000) ''https://a.example/'' accepted,
          enter (sample_at 1700000001 150000000) ''https://b.example/'' accepted))))"
    by (simp add: call_step_def enter_def posted_def demo_cfg_def sample_at_def sendTwilio_def
          accepted_def Let_def)
  from unsynchronised_debounce_serial [OF near, of Total "[Second, First, Second, Second, Second]"
      0 "''https://a.example/''" accepted "''https://b.example/''" accepted] first
  have a1: "\<not> posted (snd (snd (interleave Total demo_cfg
      [First, First, First, Second, First, Second, Second, Second]
      (0, enter (sample_at 1700000000 150000000) ''https://a.example/'' accepted,
          enter (sample_at 1700000001 150000000) ''https://b.example/'' accepted))))"
    by blast
  from unsynchronised_debounce_serial [OF near, of Total "[First, Second, First, First, First]"
      0 "''https://a.example/''" accepted "''https://b.example/''" accepted] second
  have a2: "\<not> posted (fst (snd (interleave Total demo_cfg
      [Second, Second, Second, First, Second, First, First, First]
      (0, enter (sample_at 1700000000 150000000) ''https://a.example/'' accepted,
          enter (sample_at 1700000001 150000000) ''https://b.example/'' accepted))))"
    by blast
  from first a1 second a2 show ?thesis
    by (simp only: simp_thms)
qed

text \<open>
  As the claim states it, two loops can never both pass the check and both dispatch within
  one interval.  In the run below each call reads the timestamp before the other writes
  it, and both samples, one second apart with an interval of 300 seconds, are dispatched.
\<close>

theorem unsynchronised_debounce_counterexample:
  "\<bar>Start (sample_at 1700000001 150000000) - Start (sample_at 1700000000 150000000)\<bar>
      < alertInterval demo_cfg \<and>
   posted (fst (snd (interleave Total demo_cfg
      [First, Second, First, Second, First, Second, First, Second]
      (0, enter (sample_at 1700000000 150000000) ''https://a.example/'' accepted,
          enter (sample_at 1700000001 150000000) ''https://b.example/'' accepted)))) \<and>
   posted (snd (snd (interleave Total demo_cfg
      [First, Second, First, Second, First, Second, First, Second]
      (0, enter (sample_at 1700000000 150000000) ''https://a.example/'' accepted,
          enter (sample_at 1700000001 150000000) ''https://b.example/'' accepted))))"
  by (simp add: call_step_def enter_def posted_def demo_cfg_def sample_at_def sendTwilio_def
        accepted_def Let_def)

section \<open>The probe loop: what one pass and a run of passes do\<close>

lemma totals_snoc: "xs \<noteq> [] \<Longrightarrow> totals (xs @ [p]) = add_sample (totals xs) p"
  by (cases xs) simp_all

lemma totals_fields:
  assumes "xs \<noteq> []"
  shows "DnsLk (totals xs) = sum_list (map DnsLk xs) \<and>
         TcpHs (totals xs) = sum_list (map TcpHs xs) \<and>
         TlsHs (totals xs) = sum_list (map TlsHs xs) \<and>
         Reply (totals xs) = sum_list (map Reply xs) \<and>
         Close (totals xs) = sum_list (map Close xs) \<and>
         Size (totals xs) = sum_list (map Size xs) \<and>
         Start (totals xs) = Start (hd xs) \<and>
         DestUrl (totals xs) = DestUrl (hd xs)"
  using assms
proof (induction xs rule: rev_induct)
  case Nil
  then show ?case by simp
next
  case (snoc p xs)
  show ?case
  proof (cases "xs = []")
    case True
    then show ?thesis by simp
  next
    case False
    with snoc.IH show ?thesis
      by (simp add: totals_snoc add_sample_def)
  qed
qed

lemma totals_additive:
  assumes add: "\<And>a b. rt (add_sample a b) = rt a + rt b" and ne: "xs \<noteq> []"
  shows "rt (totals xs) = sum_list (map rt xs)"
  using ne
proof (induction xs rule: rev_induct)
  case Nil
  then show ?case by simp
next
  case (snoc p xs)
  then show ?case by (cases "xs = []") (simp_all add: totals_snoc add)
qed

lemma sendTwilio_no_summary: "filter is_summary (fst (sendTwilio cfg reply msg key sms)) = []"
  by (cases reply) (auto simp: sendTwilio_def Let_def split: option.splits)

lemma sendTwilio_range_no_summary:
  "filter is_summary (fst (sendTwilio_range cfg net msg key i smss)) = []"
proof (induction smss arbitrary: i)
  case Nil
  show ?case by simp
next
  case (Cons sms rest)
  obtain evs fl where st: "sendTwilio cfg (net i) msg key sms = (evs, fl)"
    by (cases "sendTwilio cfg (net i) msg key sms")
  then have "filter is_summary evs = []"
    using sendTwilio_no_summary [of cfg "net i" msg key sms] by simp
  then show ?case using st Cons [of "Suc i"]
    by (cases fl) (auto split: prod.splits)
qed

lemma sendAlert_no_summary:
  "filter is_summary (fst (snd (sendAlert rt cfg net la pt url))) = []"
  using sendTwilio_range_no_summary [of cfg net "AlertMsg (rt pt) url (alertThresh cfg)" "twilioKey cfg" 0 "twilioSms cfg"]
  by (auto simp: sendAlert_def Let_def split: prod.splits)

lemma publish_no_summary:
  "filter is_summary (publish_cloudwatch rt cfg url pt) = []"
  "filter is_summary (publish_webhook cfg a pt) = []"
  by (auto simp: publish_cloudwatch_def publish_webhook_def publishJSON_def split: wh_reply.splits)

lemma after_attempt_state: "after_attempt n s a = (st, s') \<Longrightarrow> s' = s"
  by (auto simp: after_attempt_def split: if_splits wait_result.splits)

lemma after_attempt_Running:
  "after_attempt n s a = (Running, s') \<longleftrightarrow> (s' = s \<and> count s < n \<and> wait a = DelayElapsed)"
  by (auto simp: after_attempt_def split: if_splits wait_result.splits)

lemma iteration_None:
  assumes "fetch a = None"
  shows "iteration rt cfg url n s a =
     (if maxFails cfg \<le> failcount s + 1
      then (Returned FailureCeiling,
            s\<lparr>failcount := failcount s + 1, probes := Suc (probes s),
              out := out s @ FetchFailureLog (failcount s + 1) (maxFails cfg) url
                         # (if count s = 0 then [NoValidSamples] else [])\<rparr>)
      else after_attempt n (s\<lparr>failcount := failcount s + 1, probes := Suc (probes s)\<rparr>) a)"
  using assms by (simp add: iteration_def Let_def)

lemma iteration_effect:
  assumes "iteration rt cfg url n s a = (st, s')"
  shows "probes s' = Suc (probes s)"
    and "count s' = count s + (case fetch a of None \<Rightarrow> 0 | Some pt \<Rightarrow> 1)"
    and "failcount s' = failcount s + (case fetch a of None \<Rightarrow> 1 | Some pt \<Rightarrow> 0)"
    and "ptSummary s' = (case fetch a of None \<Rightarrow> ptSummary s
                          | Some pt \<Rightarrow> if count s = 0 then pt else add_sample (ptSummary s) pt)"
    and "deferred s' = (case fetch a of None \<Rightarrow> deferred s
                          | Some pt \<Rightarrow> if count s = 0 then True else deferred s)"
    and "filter is_summary (out s') = filter is_summary (out s)"
proof -
  show "probes s' = Suc (probes s)"
    using assms
    by (auto simp: iteration_def Let_def record_sample_def dest!: after_attempt_state
        split: option.splits prod.splits flow.splits if_splits)
  show "count s' = count s + (case fetch a of None \<Rightarrow> 0 | Some pt \<Rightarrow> 1)"
    using assms
    by (auto simp: iteration_def Let_def record_sample_def dest!: after_attempt_state
        split: option.splits prod.splits flow.splits if_splits)
  show "failcount s' = failcount s + (case fetch a of None \<Rightarrow> 1 | Some pt \<Rightarrow> 0)"
    using assms
    by (auto simp: iteration_def Let_def record_sample_def dest!: after_attempt_state
        split: option.splits prod.splits flow.splits if_splits)
  show "ptSummary s' = (case fetch a of None \<Rightarrow> ptSummary s
                          | Some pt \<Rightarrow> if count s = 0 then pt else add_sample (ptSummary s) pt)"
    using assms
    by (auto simp: iteration_def Let_def record_sample_def dest!: after_attempt_state
        split: option.splits prod.splits flow.splits if_splits)
  show "deferred s' = (case fetch a of None \<Rightarrow> deferred s
                          | Some pt \<Rightarrow> if count s = 0 then True else deferred s)"
    using assms
    by (auto simp: iteration_def Let_def record_sample_def dest!: after_attempt_state
        split: option.splits prod.splits flow.splits if_splits)
  show "filter is_summary (out s') = filter is_summary (out s)"
    using assms sendAlert_no_summary [of rt cfg "twilio a" "lastAlert s" "the (fetch a)" url]
    by (auto simp: iteration_def Let_def record_sample_def publish_no_summary
        dest!: after_attempt_state
        split: option.splits prod.splits flow.splits if_splits)
qed

lemma iteration_Running:
  assumes "iteration rt cfg url n s a = (Running, s')"
  shows "count s' < n" and "wait a = DelayElapsed"
    and "fetch a = None \<Longrightarrow> failcount s' < maxFails cfg"
  using assms
  by (auto simp: iteration_def Let_def after_attempt_def
        split: option.splits prod.splits flow.splits if_splits wait_result.splits)

lemma iteration_Returned:
  assumes "iteration rt cfg url n s a = (Returned r, s')"
  shows "r = MaxAttempts \<Longrightarrow> n \<le> count s'"
    and "r = StopSignal \<Longrightarrow> wait a = DoneClosed"
    and "r = FailureCeiling \<Longrightarrow> maxFails cfg \<le> failcount s'"
  using assms
  by (auto simp: iteration_def Let_def after_attempt_def
        split: option.splits prod.splits flow.splits if_splits wait_result.splits)

lemma samples_of_append: "samples_of (xs @ ys) = samples_of xs @ samples_of ys"
  by (induction xs) (auto split: option.splits)

lemma summed_init: "summed [] (init_state cfg url la)"
  by (simp add: summed_def init_state_def)

lemma iteration_summed:
  assumes it: "iteration rt cfg url n s a = (st, s')" and inv: "summed seen s"
  shows "summed (seen @ samples_of [a]) s'"
proof (cases "fetch a")
  case None
  with iteration_effect [OF it] inv show ?thesis
    by (simp add: summed_def)
next
  case (Some pt)
  show ?thesis
  proof (cases "seen = []")
    case True
    with Some iteration_effect [OF it] inv show ?thesis
      by (simp add: summed_def)
  next
    case False
    with Some iteration_effect [OF it] inv show ?thesis
      by (simp add: summed_def totals_snoc)
  qed
qed

lemma loop_summed:
  assumes "loop rt cfg url n s as = (st, s')" and "summed seen s"
  shows "probes s \<le> probes s' \<and> probes s' \<le> probes s + length as \<and>
         summed (seen @ samples_of (take (probes s' - probes s) as)) s' \<and>
         filter is_summary (out s') = filter is_summary (out s)"
  using assms
proof (induction as arbitrary: s seen)
  case Nil
  then show ?case by simp
next
  case (Cons a as)
  obtain st1 s1 where it: "iteration rt cfg url n s a = (st1, s1)"
    by (cases "iteration rt cfg url n s a")
  note eff = iteration_effect [OF it]
  have inv1: "summed (seen @ samples_of [a]) s1"
    using iteration_summed [OF it Cons.prems(2)] .
  show ?case
  proof (cases "st1 = Running")
    case True
    with Cons.prems(1) it have run: "loop rt cfg url n s1 as = (st, s')"
      by simp
    from Cons.IH [OF run inv1] eff(1,6)
    have ih: "probes s1 \<le> probes s'" "probes s' \<le> probes s1 + length as"
      "summed ((seen @ samples_of [a]) @ samples_of (take (probes s' - probes s1) as)) s'"
      "filter is_summary (out s') = filter is_summary (out s)"
      by simp_all
    have "probes s' - probes s = Suc (probes s' - probes s1)"
      using ih(1) eff(1) by simp
    then have "samples_of (take (probes s' - probes s) (a # as))
                 = samples_of [a] @ samples_of (take (probes s' - probes s1) as)"
      using samples_of_append [of "[a]" "take (probes s' - probes s1) as"] by simp
    with ih eff(1) show ?thesis by simp
  next
    case False
    with Cons.prems(1) it have "st = st1" "s' = s1"
      by (cases st1; simp)+
    with inv1 eff(1,6) show ?thesis by simp
  qed
qed

lemma loop_append:
  "loop rt cfg url n s (xs @ ys) =
     (case loop rt cfg url n s xs of
        (Running, s1) \<Rightarrow> loop rt cfg url n s1 ys
      | (st, s1) \<Rightarrow> (st, s1))"
proof (induction xs arbitrary: s)
  case Nil
  show ?case by simp
next
  case (Cons a xs)
  obtain st1 s1 where it: "iteration rt cfg url n s a = (st1, s1)"
    by (cases "iteration rt cfg url n s a")
  show ?case using it Cons [of s1]
    by (cases st1) simp_all
qed

lemma loop_Cons_Running:
  assumes "loop rt cfg url n s (a # as) = (Running, s')"
  obtains s1 where "iteration rt cfg url n s a = (Running, s1)"
    and "loop rt cfg url n s1 as = (Running, s')"
proof -
  obtain st1 s1 where it: "iteration rt cfg url n s a = (st1, s1)"
    by (cases "iteration rt cfg url n s a")
  with assms have "st1 = Running"
    by (cases st1) simp_all
  with assms it that show thesis by simp
qed

lemma loop_Running_probes:
  "loop rt cfg url n s as = (Running, s') \<Longrightarrow> probes s' = probes s + length as"
proof (induction as arbitrary: s)
  case Nil
  then show ?case by simp
next
  case (Cons a as)
  from Cons.prems obtain s1 where it: "iteration rt cfg url n s a = (Running, s1)"
    and run: "loop rt cfg url n s1 as = (Running, s')"
    by (rule loop_Cons_Running)
  from Cons.IH [OF run] iteration_effect(1) [OF it] show ?case by simp
qed

lemma loop_Running_count:
  "loop rt cfg url n s as = (Running, s') \<Longrightarrow> as \<noteq> [] \<Longrightarrow> count s' < n"
proof (induction as arbitrary: s)
  case Nil
  then show ?case by simp
next
  case (Cons a as)
  from Cons.prems(1) obtain s1 where it: "iteration rt cfg url n s a = (Running, s1)"
    and run: "loop rt cfg url n s1 as = (Running, s')"
    by (rule loop_Cons_Running)
  show ?case
  proof (cases "as = []")
    case True
    with run have "s' = s1" by simp
    with iteration_Running(1) [OF it] show ?thesis by simp
  next
    case False
    with Cons.IH [OF run] show ?thesis by simp
  qed
qed

lemma loop_Cons_Returned:
  assumes "loop rt cfg url n s (a # as) = (Returned r, s')"
  obtains (continue) s1 where "iteration rt cfg url n s a = (Running, s1)"
      and "loop rt cfg url n s1 as = (Returned r, s')"
    | (leave) "iteration rt cfg url n s a = (Returned r, s')"
proof -
  obtain st1 s1 where it: "iteration rt cfg url n s a = (st1, s1)"
    by (cases "iteration rt cfg url n s a")
  show thesis
  proof (cases st1)
    case Running
    with it assms continue show ?thesis by simp
  next
    case (Returned r')
    with it assms leave show ?thesis by simp
  next
    case Crashed
    with it assms show ?thesis by simp
  qed
qed

lemma loop_Returned_probes:
  "loop rt cfg url n s as = (Returned r, s') \<Longrightarrow> probes s < probes s'"
proof (induction as arbitrary: s)
  case Nil
  then show ?case by simp
next
  case (Cons a as)
  from Cons.prems show ?case
  proof (cases rule: loop_Cons_Returned)
    case (continue s1)
    from Cons.IH [OF continue(2)] iteration_effect(1) [OF continue(1)] show ?thesis by simp
  next
    case leave
    from iteration_effect(1) [OF leave] show ?thesis by simp
  qed
qed

lemma loop_MaxAttempts_count:
  "loop rt cfg url n s as = (Returned MaxAttempts, s') \<Longrightarrow> count s < n \<Longrightarrow> count s' = n"
proof (induction as arbitrary: s)
  case Nil
  then show ?case by simp
next
  case (Cons a as)
  from Cons.prems(1) show ?case
  proof (cases rule: loop_Cons_Returned)
    case (continue s1)
    from iteration_Running(1) [OF continue(1)] Cons.IH [OF continue(2)] show ?thesis by simp
  next
    case leave
    from iteration_Returned(1) [OF leave] have "n \<le> count s'" by simp
    moreover have "count s' \<le> count s + 1"
      using iteration_effect(2) [OF leave] by (cases "fetch a") simp_all
    ultimately show ?thesis using Cons.prems(2) by simp
  qed
qed


lemma loop_StopSignal_wait:
  "loop rt cfg url n s as = (Returned StopSignal, s') \<Longrightarrow>
     wait (as ! (probes s' - probes s - 1)) = DoneClosed"
proof (induction as arbitrary: s)
  case Nil
  then show ?case by simp
next
  case (Cons a as)
  from Cons.prems show ?case
  proof (cases rule: loop_Cons_Returned)
    case (continue s1)
    from loop_Returned_probes [OF continue(2)] iteration_effect(1) [OF continue(1)]
    have "probes s' - probes s - 1 = Suc (probes s' - probes s1 - 1)" by simp
    with Cons.IH [OF continue(2)] show ?thesis by simp
  next
    case leave
    from iteration_Returned(2) [OF leave] iteration_effect(1) [OF leave] show ?thesis by simp
  qed
qed

lemma loop_FailureCeiling_failcount:
  "loop rt cfg url n s as = (Returned FailureCeiling, s') \<Longrightarrow> maxFails cfg \<le> failcount s'"
proof (induction as arbitrary: s)
  case Nil
  then show ?case by simp
next
  case (Cons a as)
  from Cons.prems show ?case
  proof (cases rule: loop_Cons_Returned)
    case (continue s1)
    from Cons.IH [OF continue(2)] show ?thesis .
  next
    case leave
    from iteration_Returned(3) [OF leave] show ?thesis by simp
  qed
qed

lemma run_deferred_fields:
  assumes "run_deferred rt now st s = (st', s')"
  shows "probes s' = probes s" and "count s' = count s" and "failcount s' = failcount s"
    and "st' = Returned r \<Longrightarrow> st = Returned r" and "st \<noteq> Running \<Longrightarrow> st' \<noteq> Running"
  using assms by (auto simp: run_deferred_def split: if_splits option.splits)

lemma testHttp_loop:
  assumes lp: "loop rt cfg url (numTries_cap numTries) (init_state cfg url la) attempts = (st1, s1)"
  shows "probes (snd (testHttp rt cfg url numTries la now attempts)) = probes s1"
    and "count (snd (testHttp rt cfg url numTries la now attempts)) = count s1"
    and "failcount (snd (testHttp rt cfg url numTries la now attempts)) = failcount s1"
    and "fst (testHttp rt cfg url numTries la now attempts) = Returned r \<Longrightarrow> st1 = Returned r"
    and "(fst (testHttp rt cfg url numTries la now attempts) = Running) = (st1 = Running)"
proof -
  let ?T = "testHttp rt cfg url numTries la now attempts"
  obtain st' s' where rd: "run_deferred rt now st1 s1 = (st', s')"
    by (cases "run_deferred rt now st1 s1")
  have T: "?T = (if st1 = Running then (Running, s1) else (st', s'))"
    using lp rd by (cases st1) (simp_all add: testHttp_def)
  note f = run_deferred_fields [OF rd]
  show "probes (snd ?T) = probes s1" using T f(1) by simp
  show "count (snd ?T) = count s1" using T f(2) by simp
  show "failcount (snd ?T) = failcount s1" using T f(3) by simp
  show "st1 = Returned r" if "fst ?T = Returned r"
    using T f(4) [of r] that by (cases "st1 = Running") simp_all
  show "(fst ?T = Running) = (st1 = Running)"
    using T f(5) by (cases "st1 = Running") simp_all
qed

lemma testHttp_Returned:
  assumes "loop rt cfg url (numTries_cap numTries) (init_state cfg url la) attempts = (Returned r, s1)"
    and "count s1 \<noteq> 0"
  shows "fst (testHttp rt cfg url numTries la now attempts) = Returned r"
  using assms
  by (simp add: testHttp_def run_deferred_def summary_printer_def)

lemma loop_count:
  assumes "loop rt cfg url n (init_state cfg url la) as = (st, s')"
  shows "probes s' \<le> length as"
    and "count s' = int (length (samples_of (take (probes s') as)))"
  using loop_summed [OF assms summed_init]
  by (simp_all add: summed_def init_state_def)

lemma loop_bounded:
  assumes k: "1 \<le> k" "k \<le> length as"
    and enough: "n \<le> int (length (samples_of (take k as)))"
    and lp: "loop rt cfg url n (init_state cfg url la) as = (st, s')"
  shows "st \<noteq> Running \<and> probes s' \<le> k"
proof -
  let ?s0 = "init_state cfg url la"
  obtain st1 s1 where pre: "loop rt cfg url n ?s0 (take k as) = (st1, s1)"
    by (cases "loop rt cfg url n ?s0 (take k as)")
  have st1: "st1 \<noteq> Running"
  proof
    assume r: "st1 = Running"
    from k have ne: "take k as \<noteq> []" by (cases as) auto
    from pre r have run: "loop rt cfg url n ?s0 (take k as) = (Running, s1)" by simp
    from loop_Running_probes [OF run] k have p: "probes s1 = k"
      by (simp add: init_state_def)
    from loop_count(2) [OF pre] p have "count s1 = int (length (samples_of (take k as)))"
      by simp
    with loop_Running_count [OF run ne] enough show False by simp
  qed
  have "loop rt cfg url n ?s0 as = (st1, s1)"
    using pre st1 loop_append [of rt cfg url n ?s0 "take k as" "drop k as"]
    by (cases st1) simp_all
  with lp have "st = st1" "s' = s1" by simp_all
  with st1 loop_count(1) [OF pre] k show ?thesis by simp
qed

text \<open>
  Go's \<^verbatim>\<open>/\<close> by a count, which is above zero and fits \<^verbatim>\<open>int64\<close>, is the quotient
  rounded towards zero.
\<close>

lemma sdiv_trunc_quotient: "0 < n \<Longrightarrow> a sdiv n = trunc_quotient a n"
  by (simp add: signed_divide_int_def trunc_quotient_def sgn_if)

lemma sint_count: "0 < c \<Longrightarrow> c < 2 ^ 63 \<Longrightarrow> sint (word_of_int c :: int64) = c"
  by (simp add: sint_sbintrunc' signed_take_bit_int_eq_self)

lemma go_div_count:
  assumes "0 < c" and "c < 2 ^ 63"
  shows "go_div x (word_of_int c) = word_of_int (trunc_quotient (sint x) c)"
  using assms by (simp add: go_div_def sint_count sdiv_trunc_quotient)

lemma fdiv_average_of:
  "fdiv (Msec (sum_list (map f xs))) (float64_of_int (int (length xs))) = average_of f xs"
  by (simp add: fdiv_def Msec_def float64_of_int_def average_of_def)

text \<open>
  Where the count is a \<^verbatim>\<open>float64\<close> as it stands, which it is up to \<open>2 ^ 53\<close>, the
  average is the exact quotient rounded once.
\<close>

lemma average_of_single_rounding:
  "rnd (real (length xs)) = real (length xs) \<Longrightarrow>
     average_of f xs ms rnd = rnd (ms (sum_list (map f xs)) / real (length xs))"
  by (simp add: average_of_def)

lemma summary_printer_summed:
  assumes inv: "summed xs s" and ne: "xs \<noteq> []"
    and add: "\<And>a b. rt (add_sample a b) = rt a + rt b"
    and fits: "count s < 2 ^ 63"
  shows "summary_printer rt now s = Some (spec_summary rt now xs)"
proof -
  from inv ne have c: "count s = int (length xs)" and p: "ptSummary s = totals xs"
    by (simp_all add: summed_def)
  from ne have pos: "0 < int (length xs)" by simp
  from fits c have lt: "int (length xs) < 2 ^ 63" by simp
  note tf = totals_fields [OF ne]
  note tr = totals_additive [of rt xs, OF add ne]
  have size: "go_div (sum_list (map Size xs)) (word_of_int (int (length xs)))
                = word_of_int (trunc_quotient (sint (sum_list (map Size xs))) (int (length xs)))"
    by (rule go_div_count [OF pos lt])
  from ne have nz: "int (length xs) \<noteq> 0" by simp
  show ?thesis
    unfolding summary_printer_def spec_summary_def c p
    using nz tf tr size by (simp add: fdiv_average_of)
qed

text \<open>The counters stay between zero and the larger of 1 and their limit.\<close>

lemma iteration_counters:
  assumes it: "iteration rt cfg url n s a = (st, s')"
    and c: "0 \<le> count s" "count s < max 1 n"
    and f: "0 \<le> failcount s" "failcount s < max 1 (maxFails cfg)"
  shows "0 \<le> count s' \<and> count s' \<le> max 1 n \<and> 0 \<le> failcount s' \<and>
         failcount s' \<le> max 1 (maxFails cfg) \<and>
         (st = Running \<longrightarrow> count s' < max 1 n \<and> failcount s' < max 1 (maxFails cfg))"
proof (cases "fetch a")
  case None
  from iteration_effect(2,3) [OF it] None
  have e: "count s' = count s" "failcount s' = failcount s + 1"
    by simp_all
  have "failcount s' < maxFails cfg" if "st = Running"
    using iteration_Running(3) [of rt cfg url n s a s'] it that None by simp
  with e c f show ?thesis by auto
next
  case (Some pt)
  from iteration_effect(2,3) [OF it] Some
  have e: "count s' = count s + 1" "failcount s' = failcount s"
    by simp_all
  have "count s' < n" if "st = Running"
    using iteration_Running(1) [of rt cfg url n s a s'] it that by simp
  with e c f show ?thesis by auto
qed

lemma counters_in_range:
  assumes "loop rt cfg url n s as = (st, s')"
    and "0 \<le> count s" "count s < max 1 n"
    and "0 \<le> failcount s" "failcount s < max 1 (maxFails cfg)"
  shows "0 \<le> count s' \<and> count s' \<le> max 1 n \<and>
         0 \<le> failcount s' \<and> failcount s' \<le> max 1 (maxFails cfg)"
  using assms
proof (induction as arbitrary: s)
  case Nil
  then show ?case by auto
next
  case (Cons a as)
  obtain st1 s1 where it: "iteration rt cfg url n s a = (st1, s1)"
    by (cases "iteration rt cfg url n s a")
  note step = iteration_counters [OF it Cons.prems(2-5)]
  show ?case
  proof (cases "st1 = Running")
    case True
    from it True Cons.prems(1) have "loop rt cfg url n s1 as = (st, s')"
      by simp
    from Cons.IH [OF this] step True show ?thesis
      by blast
  next
    case False
    from it False Cons.prems(1) have "s' = s1"
      by (cases st1) simp_all
    with step show ?thesis by blast
  qed
qed

text \<open>
  Claim C2.  When \<^verbatim>\<open>testHttp\<close> leaves its loop, by return or by panic, after at least one
  successful sample, it prints one summary, last of all, and that summary is the one the
  specification words: for the DNS lookup, the TCP handshake, the TLS handshake, the reply,
  the close and the total response time the average is the sum of the field over all
  successful samples, in milliseconds, divided by their number, the quotient rounded once;
  for the size it is the sum divided by their number and rounded towards zero.  This holds
  whatever \<^verbatim>\<open>util.Msec\<close> and the rounding of \<^verbatim>\<open>float64\<close> are.  \<^verbatim>\<open>numTries\<close> is a
  Go \<^verbatim>\<open>int\<close>, below \<open>2 ^ 63\<close>.  \<^verbatim>\<open>RespTime\<close> is a method of the \<^verbatim>\<open>util\<close> package,
  taken here to add up over accumulated samples, as any sum of the duration fields does.
\<close>

theorem summary_averages_exact:
  assumes run: "testHttp rt cfg url numTries la now attempts = (st, s)"
    and exited: "st \<noteq> Running"
    and some: "samples_of (take (probes s) attempts) \<noteq> []"
    and additive: "\<And>a b. rt (add_sample a b) = rt a + rt b"
    and int_range: "numTries < 2 ^ 63"
  shows "\<exists>pre. out s = pre @ [SummaryReport (spec_summary rt now (samples_of (take (probes s) attempts)))]
              \<and> filter is_summary pre = []"
proof -
  obtain st1 s1 where lp: "loop rt cfg url (numTries_cap numTries) (init_state cfg url la) attempts = (st1, s1)"
    by (cases "loop rt cfg url (numTries_cap numTries) (init_state cfg url la) attempts")
  have st1: "st1 \<noteq> Running"
    using run exited lp by (auto simp: testHttp_def)
  then have rd: "run_deferred rt now st1 s1 = (st, s)"
    using run lp by (cases st1) (simp_all add: testHttp_def)
  have p: "probes s = probes s1"
    using rd by (auto simp: run_deferred_def split: if_splits option.splits)
  have p0: "probes (init_state cfg url la) = 0"
    by (simp add: init_state_def)
  from loop_summed [OF lp summed_init] p0
  have inv: "summed (samples_of (take (probes s1) attempts)) s1"
    and nosum: "filter is_summary (out s1) = []"
    by (simp_all add: init_state_def)
  from some p have ne: "samples_of (take (probes s1) attempts) \<noteq> []"
    by simp
  from inv ne have d: "deferred s1"
    by (simp add: summed_def)
  have "count s1 \<le> max 1 (numTries_cap numTries)"
    using counters_in_range [OF lp] by (simp add: init_state_def)
  with int_range have fits: "count s1 < 2 ^ 63"
    by (simp add: numTries_cap_def split: if_splits)
  from summary_printer_summed [where rt = rt and now = now, OF inv ne additive fits] d rd
  have "out s = out s1 @ [SummaryReport (spec_summary rt now (samples_of (take (probes s1) attempts)))]"
    by (auto simp: run_deferred_def)
  with nosum p show ?thesis by auto
qed

theorem summary_averages_exact_witness:
  "fst (testHttp Total demo_cfg ''https://a.example/'' 2 0 1700000060 scenario_A) = Returned MaxAttempts \<and>
   samples_of (take (probes (snd (testHttp Total demo_cfg ''https://a.example/'' 2 0 1700000060 scenario_A)))
      scenario_A)
     = [(sample_at 1700000000 4000000)\<lparr>Size := 1000\<rparr>,
        (sample_at 1700000010 15000000)\<lparr>Size := 2501\<rparr>] \<and>
   filter is_summary (out (snd (testHttp Total demo_cfg ''https://a.example/'' 2 0 1700000060 scenario_A)))
     = [SummaryReport (spec_summary Total 1700000060
          [(sample_at 1700000000 4000000)\<lparr>Size := 1000\<rparr>,
           (sample_at 1700000010 15000000)\<lparr>Size := 2501\<rparr>])] \<and>
   avgRespTime (spec_summary Total 1700000060
          [(sample_at 1700000000 4000000)\<lparr>Size := 1000\<rparr>,
           (sample_at 1700000010 15000000)\<lparr>Size := 2501\<rparr>]) msec_demo exact = 31 / 2 \<and>
   avgRespTime (the (summary_printer Total 1700000060
          (snd (testHttp Total demo_cfg ''https://a.example/'' 2 0 1700000060 scenario_A))))
      msec_demo exact = 31 / 2 \<and>
   avgSize (spec_summary Total 1700000060
          [(sample_at 1700000000 4000000)\<lparr>Size := 1000\<rparr>,
           (sample_at 1700000010 15000000)\<lparr>Size := 2501\<rparr>]) = 1750 \<and>
   avgSize (the (summary_printer Total 1700000060
          (snd (testHttp Total demo_cfg ''https://a.example/'' 2 0 1700000060 scenario_A)))) = 1750"
proof -
  let ?R = "testHttp Total demo_cfg ''https://a.example/'' 2 0 1700000060 scenario_A"
  let ?xs = "[(sample_at 1700000000 4000000)\<lparr>Size := 1000\<rparr>,
              (sample_at 1700000010 15000000)\<lparr>Size := 2501\<rparr>]"
  have st: "fst ?R = Returned MaxAttempts"
    by (simp add: run_defs scenario_A_def probe_sized_def)
  have pr: "probes (snd ?R) = 2"
    by (simp add: run_defs scenario_A_def probe_sized_def)
  have xs: "samples_of (take (probes (snd ?R)) scenario_A) = ?xs"
    unfolding pr by (simp add: scenario_A_def probe_sized_def)
  have add: "\<And>a b. Total (add_sample a b) = Total a + Total b"
    by (simp add: add_sample_def)
  have eq: "?R = (fst ?R, snd ?R)"
    by simp
  have nr: "fst ?R \<noteq> Running"
    using st by simp
  have ne: "samples_of (take (probes (snd ?R)) scenario_A) \<noteq> []"
    using xs by simp
  have rng: "(2::int) < 2 ^ 63"
    by simp
  from summary_averages_exact [of Total demo_cfg "''https://a.example/''" 2 0 1700000060
      scenario_A "fst ?R" "snd ?R", OF eq nr ne add rng]
  have "\<exists>pre. out (snd ?R) = pre @ [SummaryReport (spec_summary Total 1700000060
                  (samples_of (take (probes (snd ?R)) scenario_A)))] \<and> filter is_summary pre = []" .
  then have "filter is_summary (out (snd ?R)) = [SummaryReport (spec_summary Total 1700000060
                  (samples_of (take (probes (snd ?R)) scenario_A)))]"
    by auto
  then have rep: "filter is_summary (out (snd ?R)) = [SummaryReport (spec_summary Total 1700000060 ?xs)]"
    unfolding xs .
  have total: "avgRespTime (spec_summary Total 1700000060 ?xs) msec_demo exact = 31 / 2"
    by (simp add: spec_summary_def average_of_def sample_at_def msec_demo_def exact_def)
  have total_code: "avgRespTime (the (summary_printer Total 1700000060 (snd ?R))) msec_demo exact = 31 / 2"
    by (simp add: run_defs scenario_A_def probe_sized_def fdiv_def Msec_def float64_of_int_def
          msec_demo_def exact_def)
  have size: "avgSize (spec_summary Total 1700000060 ?xs) = 1750"
    by (simp add: spec_summary_def trunc_quotient_def sample_at_def)
  have size_code: "avgSize (the (summary_printer Total 1700000060 (snd ?R))) = 1750"
    by (simp add: run_defs scenario_A_def probe_sized_def go_div_def signed_divide_int_def)
  from st xs rep total total_code size size_code show ?thesis
    by (simp only: simp_thms)
qed

lemma iteration_fail_continue:
  assumes "fetch a = None" and "wait a = DelayElapsed"
    and "failcount s + 1 < maxFails cfg" and "count s < n"
  shows "iteration rt cfg url n s a =
           (Running, s\<lparr>failcount := failcount s + 1, probes := Suc (probes s)\<rparr>)"
  using assms by (simp add: iteration_None after_attempt_def)

lemma loop_fail_prefix:
  assumes "\<forall>a \<in> set as. fetch a = None \<and> wait a = DelayElapsed"
    and "failcount s + int (length as) < maxFails cfg" and "count s < n"
  shows "loop rt cfg url n s (as @ rest) =
           loop rt cfg url n
             (s\<lparr>failcount := failcount s + int (length as), probes := probes s + length as\<rparr>) rest"
  using assms
proof (induction as arbitrary: s)
  case Nil
  then show ?case by simp
next
  case (Cons a as)
  let ?s1 = "s\<lparr>failcount := failcount s + 1, probes := Suc (probes s)\<rparr>"
  from Cons.prems have it: "iteration rt cfg url n s a = (Running, ?s1)"
    by (intro iteration_fail_continue) auto
  from Cons.prems have "loop rt cfg url n ?s1 (as @ rest) =
      loop rt cfg url n
        (?s1\<lparr>failcount := failcount ?s1 + int (length as), probes := probes ?s1 + length as\<rparr>) rest"
    by (intro Cons.IH) auto
  with it show ?case by (simp add: algebra_simps)
qed

lemma iteration_fail_status:
  assumes "fetch a = None" and "iteration rt cfg url n s a = (st, s')"
  shows "st \<noteq> Crashed"
  using assms
  by (auto simp: iteration_None after_attempt_def split: if_splits wait_result.splits)

lemma loop_all_fail_not_Crashed:
  assumes "\<forall>a \<in> set as. fetch a = None" and "loop rt cfg url n s as = (st, s')"
  shows "st \<noteq> Crashed"
  using assms
proof (induction as arbitrary: s)
  case Nil
  then show ?case by auto
next
  case (Cons a as)
  obtain st1 s1 where it: "iteration rt cfg url n s a = (st1, s1)"
    by (cases "iteration rt cfg url n s a")
  from Cons.prems(1) have fa: "fetch a = None" by simp
  show ?case
  proof (cases "st1 = Running")
    case True
    with Cons.prems it have "loop rt cfg url n s1 as = (st, s')" by simp
    with Cons.IH Cons.prems(1) show ?thesis by simp
  next
    case False
    with Cons.prems(2) it have "st = st1" by (cases st1) simp_all
    with iteration_fail_status [OF fa it] show ?thesis by simp
  qed
qed

lemma samples_of_all_fail: "\<forall>a \<in> set as. fetch a = None \<Longrightarrow> samples_of as = []"
  by (induction as) auto

lemma numTries_cap_pos: "0 \<le> numTries \<Longrightarrow> 0 < numTries_cap numTries"
  by (simp add: numTries_cap_def)

text \<open>
  Claim C3, as the code has it.  When every probe fails, \<^verbatim>\<open>testHttp\<close> never prints a
  summary and never panics, so it never divides by a zero count.  When moreover the failure
  ceiling F is at least 1, the number of tests is not negative, and the done channel is not
  found closed in the waits after the first F - 1 failures, the loop returns after exactly
  F failed probes, having logged the failure and printed that no valid samples were
  received.
\<close>

theorem all_failures_reach_ceiling:
  assumes allfail: "\<forall>a \<in> set attempts. fetch a = None"
  shows "fst (testHttp rt cfg url numTries la now attempts) \<noteq> Crashed \<and>
         filter is_summary (out (snd (testHttp rt cfg url numTries la now attempts))) = [] \<and>
         (1 \<le> maxFails cfg \<and> 0 \<le> numTries \<and> nat (maxFails cfg) \<le> length attempts \<and>
          (\<forall>a \<in> set (take (nat (maxFails cfg) - 1) attempts). wait a = DelayElapsed) \<longrightarrow>
          testHttp rt cfg url numTries la now attempts =
            (Returned FailureCeiling,
             (init_state cfg url la)
               \<lparr>failcount := maxFails cfg, probes := nat (maxFails cfg),
                out := out (init_state cfg url la)
                         @ [FetchFailureLog (maxFails cfg) (maxFails cfg) url, NoValidSamples]\<rparr>))"
proof -
  let ?n = "numTries_cap numTries"
  let ?s0 = "init_state cfg url la"
  obtain st1 s1 where lp: "loop rt cfg url ?n ?s0 attempts = (st1, s1)"
    by (cases "loop rt cfg url ?n ?s0 attempts")
  have nc: "st1 \<noteq> Crashed"
    using loop_all_fail_not_Crashed [OF allfail lp] .
  have "samples_of (take (probes s1 - probes ?s0) attempts) = []"
    using allfail by (intro samples_of_all_fail) (auto dest: in_set_takeD)
  with loop_summed [OF lp summed_init]
  have inv: "summed [] s1" and nosum: "filter is_summary (out s1) = filter is_summary (out ?s0)"
    by simp_all
  from inv have nd: "\<not> deferred s1" by (simp add: summed_def)
  have res: "testHttp rt cfg url numTries la now attempts = (st1, s1)"
    using lp nd by (cases st1) (simp_all add: testHttp_def run_deferred_def)
  have alive: "fst (testHttp rt cfg url numTries la now attempts) \<noteq> Crashed"
    using res nc by simp
  have quiet: "filter is_summary (out (snd (testHttp rt cfg url numTries la now attempts))) = []"
    using res nosum by (simp add: init_state_def)
  have ceiling: "testHttp rt cfg url numTries la now attempts =
           (Returned FailureCeiling,
            ?s0\<lparr>failcount := maxFails cfg, probes := nat (maxFails cfg),
               out := out ?s0 @ [FetchFailureLog (maxFails cfg) (maxFails cfg) url, NoValidSamples]\<rparr>)"
    if F: "1 \<le> maxFails cfg" and nt: "0 \<le> numTries"
      and len: "nat (maxFails cfg) \<le> length attempts"
      and waits: "\<forall>a \<in> set (take (nat (maxFails cfg) - 1) attempts). wait a = DelayElapsed"
  proof -
    let ?k = "nat (maxFails cfg) - 1"
    let ?pre = "take ?k attempts"
    let ?a = "attempts ! ?k"
    from F len have k: "?k < length attempts" by simp
    then have split: "attempts = ?pre @ ?a # drop (Suc ?k) attempts"
      by (rule id_take_nth_drop)
    from k have lpre: "length ?pre = ?k" by simp
    have pre: "\<forall>a \<in> set ?pre. fetch a = None \<and> wait a = DelayElapsed"
      using allfail waits by (auto dest: in_set_takeD)
    have fa: "fetch ?a = None"
      using allfail k by simp
    have c0: "count ?s0 < ?n"
      using numTries_cap_pos [OF nt] by (simp add: init_state_def)
    have f0: "failcount ?s0 + int (length ?pre) < maxFails cfg"
      using F lpre by (simp add: init_state_def)
    let ?s1 = "?s0\<lparr>failcount := failcount ?s0 + int (length ?pre),
                      probes := probes ?s0 + length ?pre\<rparr>"
    have "loop rt cfg url ?n ?s0 (?pre @ ?a # drop (Suc ?k) attempts)
            = loop rt cfg url ?n ?s1 (?a # drop (Suc ?k) attempts)"
      using loop_fail_prefix [OF pre f0 c0] .
    also have "\<dots> = (Returned FailureCeiling,
            ?s0\<lparr>failcount := maxFails cfg, probes := nat (maxFails cfg),
               out := out ?s0 @ [FetchFailureLog (maxFails cfg) (maxFails cfg) url, NoValidSamples]\<rparr>)"
      using F lpre fa by (simp add: iteration_None init_state_def)
    finally have "loop rt cfg url ?n ?s0 attempts = (Returned FailureCeiling,
            ?s0\<lparr>failcount := maxFails cfg, probes := nat (maxFails cfg),
               out := out ?s0 @ [FetchFailureLog (maxFails cfg) (maxFails cfg) url, NoValidSamples]\<rparr>)"
      using split by simp
    then show ?thesis
      by (simp add: testHttp_def run_deferred_def init_state_def)
  qed
  from alive quiet ceiling show ?thesis
    by blast
qed

theorem all_failures_reach_ceiling_witness:
  "testHttp Total (demo_cfg\<lparr>maxFails := 2\<rparr>) ''https://a.example/'' 0 0 1700000060 scenario_B =
     (Returned FailureCeiling,
      final_state 2 2 [FetchFailureLog 2 2 ''https://a.example/'', NoValidSamples])"
proof -
  have allfail: "\<forall>a \<in> set scenario_B. fetch a = None"
    by (simp add: scenario_B_def failed_def)
  have hyps: "1 \<le> maxFails (demo_cfg\<lparr>maxFails := 2\<rparr>) \<and> (0::int) \<le> 0 \<and>
      nat (maxFails (demo_cfg\<lparr>maxFails := 2\<rparr>)) \<le> length scenario_B \<and>
      (\<forall>a \<in> set (take (nat (maxFails (demo_cfg\<lparr>maxFails := 2\<rparr>)) - 1) scenario_B).
          wait a = DelayElapsed)"
    by (simp add: scenario_B_def failed_def)
  from all_failures_reach_ceiling [OF allfail, of Total "demo_cfg\<lparr>maxFails := 2\<rparr>"
      "''https://a.example/''" 0 0 1700000060] hyps
  have "testHttp Total (demo_cfg\<lparr>maxFails := 2\<rparr>) ''https://a.example/'' 0 0 1700000060 scenario_B =
          (Returned FailureCeiling,
           (init_state (demo_cfg\<lparr>maxFails := 2\<rparr>) ''https://a.example/'' 0)
             \<lparr>failcount := maxFails (demo_cfg\<lparr>maxFails := 2\<rparr>),
              probes := nat (maxFails (demo_cfg\<lparr>maxFails := 2\<rparr>)),
              out := out (init_state (demo_cfg\<lparr>maxFails := 2\<rparr>) ''https://a.example/'' 0)
                       @ [FetchFailureLog (maxFails (demo_cfg\<lparr>maxFails := 2\<rparr>))
                            (maxFails (demo_cfg\<lparr>maxFails := 2\<rparr>)) ''https://a.example/'',
                          NoValidSamples]\<rparr>)"
    by blast
  then show ?thesis
    by (simp add: init_state_def final_state_def demo_cfg_def)
qed

text \<open>
  As the claim states it, the loop ends after exactly F failed attempts and prints the
  message whenever every attempt fails.  With a ceiling of 0 it ends after one failed
  attempt.  With a ceiling of 3 and the done channel closed in the first wait, it returns
  after one failed attempt and prints nothing; so it does with a ceiling of 3 and a
  negative number of tests.
\<close>

theorem failure_ceiling_counterexample:
  "testHttp Total (demo_cfg\<lparr>maxFails := 0\<rparr>) ''https://a.example/'' 0 0 1700000060 failing_run =
     (Returned FailureCeiling,
      final_state 1 1 [FetchFailureLog 1 0 ''https://a.example/'', NoValidSamples]) \<and>
   testHttp Total (demo_cfg\<lparr>maxFails := 3\<rparr>) ''https://a.example/'' 0 0 1700000060 stopped_run =
     (Returned StopSignal, final_state 1 1 []) \<and>
   testHttp Total (demo_cfg\<lparr>maxFails := 3\<rparr>) ''https://a.example/'' (- 1) 0 1700000060 failing_run =
     (Returned MaxAttempts, final_state 1 1 [])"
  by (simp add: run_defs failing_run_def stopped_run_def final_state_def)



lemma iteration_quiet:
  assumes "fetch a = Some pt" and "\<not> alertThresh cfg <s rt pt" and "wait a = DelayElapsed"
  shows "count (snd (iteration rt cfg url n s a)) = count s + 1"
    and "count s + 1 < n \<Longrightarrow> fst (iteration rt cfg url n s a) = Running"
    and "n \<le> count s + 1 \<Longrightarrow> fst (iteration rt cfg url n s a) = Returned MaxAttempts"
  using assms by (simp_all add: iteration_def Let_def record_sample_def after_attempt_def)

lemma loop_quiet_run:
  assumes a: "fetch a = Some pt" "\<not> alertThresh cfg <s rt pt" "wait a = DelayElapsed"
  shows "count s + int k < n \<Longrightarrow>
         \<exists>s'. loop rt cfg url n s (replicate k a) = (Running, s') \<and> count s' = count s + int k"
proof (induction k arbitrary: s)
  case 0
  then show ?case by simp
next
  case (Suc k)
  obtain st1 s1 where it: "iteration rt cfg url n s a = (st1, s1)"
    by (cases "iteration rt cfg url n s a")
  note q = iteration_quiet [where rt = rt and cfg = cfg and url = url and n = n and s = s, OF a]
  from q(1) it have c1: "count s1 = count s + 1" by simp
  from Suc.prems have "count s + 1 < n" by simp
  with q(2) it have st1: "st1 = Running" by simp
  from Suc.prems c1 have "count s1 + int k < n" by simp
  from Suc.IH [OF this] obtain s' where
    "loop rt cfg url n s1 (replicate k a) = (Running, s')" "count s' = count s1 + int k"
    by blast
  with it st1 c1 show ?case by simp
qed

lemma loop_quiet_limit:
  assumes a: "fetch a = Some pt" "\<not> alertThresh cfg <s rt pt" "wait a = DelayElapsed"
    and n: "n = int (Suc k)"
  shows "\<exists>s'. loop rt cfg url n (init_state cfg url la) (replicate (Suc k) a)
                 = (Returned MaxAttempts, s') \<and> count s' = n"
proof -
  let ?s0 = "init_state cfg url la"
  have "count ?s0 + int k < n"
    using n by (simp add: init_state_def)
  from loop_quiet_run [where rt = rt and cfg = cfg and url = url and s = ?s0, OF a this]
  obtain s1 where
    s1: "loop rt cfg url n ?s0 (replicate k a) = (Running, s1)" "count s1 = count ?s0 + int k"
    by blast
  obtain st2 s2 where it: "iteration rt cfg url n s1 a = (st2, s2)"
    by (cases "iteration rt cfg url n s1 a")
  note q = iteration_quiet [where rt = rt and cfg = cfg and url = url and n = n and s = s1, OF a]
  from q(1) it s1(2) n have c: "count s2 = n"
    by (simp add: init_state_def)
  from s1(2) n have "n \<le> count s1 + 1"
    by (simp add: init_state_def)
  with q(3) it have st2: "st2 = Returned MaxAttempts" by simp
  have "replicate (Suc k) a = replicate k a @ [a]"
    by (simp add: replicate_append_same)
  then have "loop rt cfg url n ?s0 (replicate (Suc k) a) = (Returned MaxAttempts, s2)"
    using loop_append [of rt cfg url n ?s0 "replicate k a" "[a]"] s1(1) it st2
    by (simp del: replicate.simps)
  with c show ?thesis by blast
qed

lemma iteration_not_Crashed:
  assumes "\<forall>i. answered (twilio a i)"
  shows "fst (iteration rt cfg url n s a) \<noteq> Crashed"
proof (cases "fetch a")
  case None
  obtain st s' where it: "iteration rt cfg url n s a = (st, s')"
    by (cases "iteration rt cfg url n s a")
  from iteration_fail_status [OF None it] it show ?thesis by simp
next
  case (Some pt)
  have na: "fst (after_attempt n s1 a) \<noteq> Crashed" for s1
    by (simp add: after_attempt_def split: wait_result.splits)
  obtain la evs fl where sa:
    "sendAlert rt cfg (twilio a) (lastAlert s) pt url = (la, evs, fl)"
    by (cases "sendAlert rt cfg (twilio a) (lastAlert s) pt url")
  with sendAlert_Normal [OF assms, of rt cfg "lastAlert s" pt url] have "fl = Normal"
    by simp
  with Some sa na show ?thesis
    by (simp add: iteration_def Let_def record_sample_def)
qed

lemma loop_not_Crashed:
  assumes "\<forall>a \<in> set as. \<forall>i. answered (twilio a i)"
  shows "fst (loop rt cfg url n s as) \<noteq> Crashed"
  using assms
proof (induction as arbitrary: s)
  case Nil
  show ?case by simp
next
  case (Cons a as)
  obtain st1 s1 where it: "iteration rt cfg url n s a = (st1, s1)"
    by (cases "iteration rt cfg url n s a")
  from Cons.prems have "\<forall>i. answered (twilio a i)" by simp
  from iteration_not_Crashed [OF this, of rt cfg url n s] it have nc: "st1 \<noteq> Crashed"
    by simp
  from Cons.prems have "fst (loop rt cfg url n s1 as) \<noteq> Crashed"
    by (intro Cons.IH) simp
  with it nc show ?case
    by (cases st1) simp_all
qed

lemma testHttp_not_Crashed:
  assumes "\<forall>a \<in> set attempts. \<forall>i. answered (twilio a i)"
  shows "fst (testHttp rt cfg url numTries la now attempts) \<noteq> Crashed"
proof -
  let ?s0 = "init_state cfg url la"
  obtain st1 s1 where lp: "loop rt cfg url (numTries_cap numTries) ?s0 attempts = (st1, s1)"
    by (cases "loop rt cfg url (numTries_cap numTries) ?s0 attempts")
  from loop_not_Crashed [OF assms, of rt cfg url "numTries_cap numTries" ?s0] lp
  have nc: "st1 \<noteq> Crashed" by simp
  from loop_summed [OF lp summed_init] have "deferred s1 \<longrightarrow> count s1 \<noteq> 0"
    by (auto simp: summed_def)
  with lp nc show ?thesis
    by (cases st1) (auto simp: testHttp_def run_deferred_def summary_printer_def)
qed

text \<open>
  With the number of tests given as 0, \<^verbatim>\<open>testHttp\<close> runs as with a limit of 2147483647:
  once that many samples have succeeded the loop has left, so it is bounded.  When it
  returns, it does so because the done channel was found closed in the wait after its last
  probe, because the failures have reached the ceiling, or because the count of successful
  samples has reached 2147483647 and not before.  It does not panic as long as every
  request to the notification service is built and answered.
\<close>

theorem zero_attempts_is_capped:
  "testHttp rt cfg url 0 la now attempts = testHttp rt cfg url 2147483647 la now attempts \<and>
   (2147483647 \<le> int (length (samples_of attempts)) \<longrightarrow>
      fst (testHttp rt cfg url 0 la now attempts) \<noteq> Running) \<and>
   (fst (testHttp rt cfg url 0 la now attempts) = Returned MaxAttempts \<longrightarrow>
      count (snd (testHttp rt cfg url 0 la now attempts)) = 2147483647) \<and>
   (fst (testHttp rt cfg url 0 la now attempts) = Returned FailureCeiling \<longrightarrow>
      maxFails cfg \<le> failcount (snd (testHttp rt cfg url 0 la now attempts))) \<and>
   (fst (testHttp rt cfg url 0 la now attempts) = Returned StopSignal \<longrightarrow>
      wait (attempts ! (probes (snd (testHttp rt cfg url 0 la now attempts)) - 1)) = DoneClosed) \<and>
   ((\<forall>a \<in> set attempts. \<forall>i. answered (twilio a i)) \<longrightarrow>
      fst (testHttp rt cfg url 0 la now attempts) \<noteq> Crashed)"
proof -
  let ?T = "testHttp rt cfg url 0 la now attempts"
  let ?s0 = "init_state cfg url la"
  obtain st1 s1 where lp: "loop rt cfg url (numTries_cap 0) ?s0 attempts = (st1, s1)"
    by (cases "loop rt cfg url (numTries_cap 0) ?s0 attempts")
  note t = testHttp_loop [OF lp, of now]
  have cap: "?T = testHttp rt cfg url 2147483647 la now attempts"
    by (simp add: testHttp_def numTries_cap_def)
  have bounded: "fst ?T \<noteq> Running" if many: "2147483647 \<le> int (length (samples_of attempts))"
  proof -
    from many have len: "1 \<le> length attempts"
      by (cases attempts) simp_all
    from many have "numTries_cap 0 \<le> int (length (samples_of (take (length attempts) attempts)))"
      by (simp add: numTries_cap_def)
    from loop_bounded [OF len order_refl this lp] t(5) show ?thesis by simp
  qed
  have by_cap: "count (snd ?T) = 2147483647" if "fst ?T = Returned MaxAttempts"
  proof -
    from t(4) [OF that] lp have "loop rt cfg url (numTries_cap 0) ?s0 attempts = (Returned MaxAttempts, s1)"
      by simp
    from loop_MaxAttempts_count [OF this] t(2) show ?thesis
      by (simp add: numTries_cap_def init_state_def)
  qed
  have by_ceiling: "maxFails cfg \<le> failcount (snd ?T)" if "fst ?T = Returned FailureCeiling"
  proof -
    from t(4) [OF that] lp have "loop rt cfg url (numTries_cap 0) ?s0 attempts = (Returned FailureCeiling, s1)"
      by simp
    from loop_FailureCeiling_failcount [OF this] t(3) show ?thesis by simp
  qed
  have by_stop: "wait (attempts ! (probes (snd ?T) - 1)) = DoneClosed" if "fst ?T = Returned StopSignal"
  proof -
    from t(4) [OF that] lp have "loop rt cfg url (numTries_cap 0) ?s0 attempts = (Returned StopSignal, s1)"
      by simp
    from loop_StopSignal_wait [OF this] t(1) show ?thesis
      by (simp add: init_state_def)
  qed
  have safe: "fst ?T \<noteq> Crashed"
    if "\<forall>a \<in> set attempts. \<forall>i. answered (twilio a i)"
    using testHttp_not_Crashed [OF that] .
  from cap bounded by_cap by_ceiling by_stop safe show ?thesis
    by blast
qed

theorem zero_attempts_is_capped_witness:
  "fst (testHttp Total demo_cfg ''https://a.example/'' 0 0 1700000060
          (replicate 2147483647 (probe_ok 1700000000 4000000 accepted DelayElapsed)))
     = Returned MaxAttempts \<and>
   count (snd (testHttp Total demo_cfg ''https://a.example/'' 0 0 1700000060
          (replicate 2147483647 (probe_ok 1700000000 4000000 accepted DelayElapsed))))
     = 2147483647"
proof -
  let ?a = "probe_ok 1700000000 4000000 accepted DelayElapsed"
  have a: "fetch ?a = Some (sample_at 1700000000 4000000)"
      "\<not> alertThresh demo_cfg <s Total (sample_at 1700000000 4000000)"
      "wait ?a = DelayElapsed"
    by (simp_all add: probe_ok_def demo_cfg_def sample_at_def)
  have n: "numTries_cap 0 = int (Suc 2147483646)"
    by (simp add: numTries_cap_def)
  have r: "replicate 2147483647 ?a = replicate (Suc 2147483646) ?a"
    by (simp only: eval_nat_numeral)
  from loop_quiet_limit [where rt = Total and cfg = demo_cfg and url = "''https://a.example/''"
      and la = 0, OF a n]
  obtain s' where
    s': "loop Total demo_cfg ''https://a.example/'' (numTries_cap 0)
           (init_state demo_cfg ''https://a.example/'' 0) (replicate (Suc 2147483646) ?a)
         = (Returned MaxAttempts, s')" "count s' = numTries_cap 0"
    by blast
  from s'(2) have "count s' \<noteq> 0"
    by (simp add: numTries_cap_def)
  from testHttp_Returned [OF s'(1) this, of 1700000060]
  have st: "fst (testHttp Total demo_cfg ''https://a.example/'' 0 0 1700000060
               (replicate 2147483647 ?a)) = Returned MaxAttempts"
    unfolding r .
  with zero_attempts_is_capped [of Total demo_cfg "''https://a.example/''" 0 1700000060
      "replicate 2147483647 ?a"]
  show ?thesis
    by blast
qed

text \<open>
  Claim C8 fails on the code.  With the number of tests given as 0 the loop also ends in a
  fourth way, neither by the done channel, nor by the failure ceiling, nor by the cap: a
  request to the notification service that fails in transport makes \<^verbatim>\<open>sendTwilio\<close>
  panic on the \<^verbatim>\<open>nil\<close> response.  In the run below the done channel stays open, no probe
  has failed, with a ceiling of 10, and one sample of the 2147483647 has succeeded when
  the process ends, after its first probe.
\<close>

theorem zero_attempts_ends_by_panic:
  "fst (testHttp Total demo_cfg ''https://a.example/'' 0 0 1700000060 unreachable_run) = Crashed \<and>
   probes (snd (testHttp Total demo_cfg ''https://a.example/'' 0 0 1700000060 unreachable_run)) = 1 \<and>
   length unreachable_run = 2 \<and>
   map wait unreachable_run = [DelayElapsed, DelayElapsed] \<and>
   failcount (snd (testHttp Total demo_cfg ''https://a.example/'' 0 0 1700000060 unreachable_run)) = 0 \<and>
   maxFails demo_cfg = 10 \<and>
   count (snd (testHttp Total demo_cfg ''https://a.example/'' 0 0 1700000060 unreachable_run)) = 1 \<and>
   numTries_cap 0 = 2147483647"
  by (simp add: run_defs unreachable_run_def)

section \<open>The done channel in the wait\<close>

lemma iteration_DoneClosed:
  assumes "wait a = DoneClosed"
  shows "fst (iteration rt cfg url n s a) \<noteq> Running"
proof
  assume "fst (iteration rt cfg url n s a) = Running"
  then obtain s' where "iteration rt cfg url n s a = (Running, s')"
    by (cases "iteration rt cfg url n s a") simp
  from iteration_Running(2) [OF this] assms show False by simp
qed

text \<open>
  A wait that takes the done case ends the loop: whatever passes would follow, no further
  probe is made.
\<close>

lemma done_case_ends_loop:
  assumes pre: "loop rt cfg url n s pre = (Running, s1)" and dc: "wait a = DoneClosed"
  shows "fst (loop rt cfg url n s (pre @ a # rest)) \<noteq> Running \<and>
         probes (snd (loop rt cfg url n s (pre @ a # rest))) = probes s + length pre + 1"
proof -
  obtain st2 s2 where it: "iteration rt cfg url n s1 a = (st2, s2)"
    by (cases "iteration rt cfg url n s1 a")
  from iteration_DoneClosed [OF dc, of rt cfg url n s1] it have nr: "st2 \<noteq> Running"
    by simp
  have "loop rt cfg url n s (pre @ a # rest) = (st2, s2)"
    using loop_append [of rt cfg url n s pre "a # rest"] pre it nr
    by (cases st2) simp_all
  with nr iteration_effect(1) [OF it] loop_Running_probes [OF pre] show ?thesis
    by simp
qed

lemma select_case_closed: "0 < delayFlag cfg \<Longrightarrow> select_case cfg True pick = DoneClosed"
  by (simp add: select_case_def)

text \<open>
  With a delay above zero, a done channel that is closed by the wait of pass \<open>k\<close> ends
  the loop there at the latest: pass \<open>k\<close> is the last that probes.
\<close>

lemma closed_at_stops_loop:
  assumes d: "0 < delayFlag cfg"
  shows "i \<le> k \<Longrightarrow> k < i + length as \<Longrightarrow>
         fst (loop rt cfg url n s (closed_at cfg k pick i as)) \<noteq> Running \<and>
         probes (snd (loop rt cfg url n s (closed_at cfg k pick i as))) \<le> probes s + (k - i) + 1"
proof (induction as arbitrary: i s)
  case Nil
  then show ?case by simp
next
  case (Cons a as)
  let ?a = "a\<lparr>wait := select_case cfg (k \<le> i) (pick i)\<rparr>"
  obtain st1 s1 where it: "iteration rt cfg url n s ?a = (st1, s1)"
    by (cases "iteration rt cfg url n s ?a")
  note p = iteration_effect(1) [OF it]
  show ?case
  proof (cases "st1 = Running")
    case True
    with it have run: "iteration rt cfg url n s ?a = (Running, s1)"
      by simp
    from iteration_Running(2) [OF run]
    have "select_case cfg (k \<le> i) (pick i) = DelayElapsed"
      by simp
    with d have "\<not> k \<le> i"
      by (auto simp: select_case_def split: if_splits)
    with Cons.prems have next_pass: "Suc i \<le> k" "k < Suc i + length as"
      by simp_all
    have ar: "probes s1 + (k - Suc i) + 1 = probes s + (k - i) + 1"
      using p next_pass(1) by arith
    have lp: "loop rt cfg url n s (closed_at cfg k pick i (a # as))
                = loop rt cfg url n s1 (closed_at cfg k pick (Suc i) as)"
      using run by simp
    from Cons.IH [OF next_pass, of s1] show ?thesis
      by (simp only: lp ar simp_thms)
  next
    case False
    with it have "loop rt cfg url n s (closed_at cfg k pick i (a # as)) = (st1, s1)"
      by (cases st1) simp_all
    with False p show ?thesis
      by simp
  qed
qed

text \<open>
  Claim C4 fails on the code for a delay of zero.  The timer of \<^verbatim>\<open>time.After(0)\<close> is
  due at once, so with the done channel closed both cases of the \<^verbatim>\<open>select\<close> can be
  ready, and of two ready cases Go takes either.  In the first run below the channel is
  closed by the first wait, the first two selects take the timer case, and the loop makes
  two further probes before it returns on the third: two waits after the close have not
  observed it.  With the default delay of ten seconds the same run returns after its first
  probe, as the two lemmas above show of every run with a delay above zero.
\<close>

theorem closed_channel_probed_again:
  "testHttp Total zero_delay_cfg ''https://a.example/'' 0 0 1700000060
      (closed_at zero_delay_cfg 0 timer_twice 0 failing_run)
     = (Returned StopSignal, final_state 3 3 []) \<and>
   testHttp Total demo_cfg ''https://a.example/'' 0 0 1700000060
      (closed_at demo_cfg 0 timer_twice 0 failing_run)
     = (Returned StopSignal, final_state 1 1 [])"
  by (simp add: run_defs failing_run_def final_state_def)

section \<open>The signal handler: one close\<close>

lemma on_signal_first:
  "on_signal sig (handler_init c) =
     Some \<lparr>closed = {c}, doneChan = None, trace = [Ack sig, CloseChan c]\<rparr>"
  by (simp add: on_signal_def handler_init_def close_chan_def Let_def)

lemma on_signal_again:
  "doneChan h = None \<Longrightarrow> on_signal sig h = Some (h\<lparr>trace := trace h @ [Ack sig]\<rparr>)"
  by (simp add: on_signal_def Let_def)

lemma handler_after_close:
  "doneChan h = None \<Longrightarrow>
     \<exists>h'. handler h sigs = Some h' \<and> closed h' = closed h \<and> doneChan h' = None \<and>
          trace h' = trace h @ map Ack sigs"
proof (induction sigs arbitrary: h)
  case Nil
  then show ?case by simp
next
  case (Cons sig sigs)
  let ?h1 = "h\<lparr>trace := trace h @ [Ack sig]\<rparr>"
  from Cons.prems have "doneChan ?h1 = None" by simp
  from Cons.IH [OF this] Cons.prems show ?case
    by (auto simp: on_signal_again)
qed

text \<open>
  Claim C7.  After the first termination request has closed the done channel, any further
  requests are handled without error, close nothing more, and leave the channel closed and
  the variable \<^verbatim>\<open>nil\<close>: the channel is closed exactly once and never reopens.  Every
  request, the first and the later ones, prints its line to standard output.
\<close>

theorem second_signal_is_noop:
  "\<exists>h1 h2. handler (handler_init c) [sig] = Some h1 \<and> handler h1 sigs = Some h2 \<and>
      handler (handler_init c) (sig # sigs) = Some h2 \<and>
      closed h1 = {c} \<and> doneChan h1 = None \<and>
      closed h2 = closed h1 \<and> doneChan h2 = doneChan h1 \<and>
      filter is_close (trace h2) = [CloseChan c]"
proof -
  let ?h1 = "\<lparr>closed = {c}, doneChan = None, trace = [Ack sig, CloseChan c]\<rparr>"
  have d: "doneChan ?h1 = None" by simp
  from handler_after_close [OF d, of sigs] obtain h2 where
    h2: "handler ?h1 sigs = Some h2" "closed h2 = closed ?h1" "doneChan h2 = None"
        "trace h2 = trace ?h1 @ map Ack sigs"
    by blast
  have "filter is_close (map Ack sigs) = []"
    by (induction sigs) simp_all
  with h2 show ?thesis
    by (intro exI [of _ ?h1] exI [of _ h2]) (simp add: on_signal_first)
qed

theorem second_signal_is_noop_witness:
  "closed (the (handler (handler_init 0) [''interrupt'', ''terminated''])) = {0} \<and>
   doneChan (the (handler (handler_init 0) [''interrupt'', ''terminated''])) = None \<and>
   filter is_close (trace (the (handler (handler_init 0) [''interrupt'', ''terminated'']))) =
     [CloseChan 0]"
proof -
  from second_signal_is_noop [of 0 "''interrupt''" "[''terminated'']"]
  obtain h1 h2 :: hstate
    where run: "handler (handler_init 0) [''interrupt'', ''terminated''] = Some h2"
    and c1: "closed h1 = {0}" and d1: "doneChan h1 = None"
    and c2: "closed h2 = closed h1" and d2: "doneChan h2 = doneChan h1"
    and tr: "filter is_close (trace h2) = [CloseChan 0]"
    by blast
  from c1 c2 have "closed h2 = {0}" by simp
  moreover from d1 d2 have "doneChan h2 = None" by simp
  ultimately show ?thesis
    unfolding run option.sel using tr by simp
qed

end
